theory Spec2Isabelle
  imports Main "HOL-Library.Word"
begin

section \<open>Data model of the run command\<close>

text \<open>
  Go's \<open>error\<close> values: a plain message, or \<open>fmt.Errorf("prefix: %w", err)\<close>, which wraps
  an inner error behind a prefix. \<open>EOF\<close> stands for \<open>io.EOF\<close>. \<open>Panic\<close> is not an error
  value of Go: it marks a run-time panic (a nil dereference), which unwinds every caller.
\<close>

datatype error = Err string | Wrap string error | Panic string

definition EOF :: error where
  "EOF = Err ''EOF''"

text \<open>\<open>time.Duration\<close> is a signed 64-bit count of nanoseconds.\<close>

type_synonym duration = "64 word"

text \<open>
  \<open>executionTask\<close> of the source. Go's \<open>int\<close> fields are modelled as unbounded integers: the
  ids and instance numbers count list elements held in memory, far below \<open>2^63\<close>.
  The field \<open>id\<close> is written \<open>id'\<close>, since \<open>id\<close> is the identity function of HOL.
\<close>

record executionTask =
  id' :: int
  code :: string
  source :: string
  instanceNo :: int
  totalInst :: int

text \<open>The command-line flags of \<open>ags run\<close> (package-level variables in the source).\<close>

record runFlags =
  runCode :: string
  runFiles :: "string list"
  runInstance :: string
  runTool :: string
  runLanguage :: string
  runKeepAlive :: bool
  runStream :: bool
  runTime :: bool
  runRepeat :: int
  runParallel :: bool
  runMaxParallel :: int

section \<open>Building tasks\<close>

text \<open>
  The repetition loop that occurs four times in \<open>buildTasks\<close>:
  \<^verbatim>\<open>for i := 0; i < max(runRepeat, 1); i++ { tasks = append(tasks, executionTask{...}); taskID++ }\<close>
  The state of the loop is the pair \<open>(tasks, taskID)\<close>.
\<close>

function repeatLoop ::
  "string \<Rightarrow> string \<Rightarrow> int \<Rightarrow> int \<Rightarrow> executionTask list \<times> int \<Rightarrow> executionTask list \<times> int"
where
  "repeatLoop codeStr src r i (tasks, taskID) =
     (if i < max r 1
      then repeatLoop codeStr src r (i + 1)
             (tasks @ [\<lparr>id' = taskID, code = codeStr, source = src,
                        instanceNo = i + 1, totalInst = max r 1\<rparr>],
              taskID + 1)
      else (tasks, taskID))"
  by pat_completeness auto
termination
  by (relation "measure (\<lambda>(codeStr, src, r, i, st). nat (max r 1 - i))") auto

declare repeatLoop.simps [simp del]

text \<open>
  The loop over the file list, \<open>for _, file := range runFiles\<close>: a file that cannot be read
  aborts the build with an error naming the file.
\<close>

fun filesLoop ::
  "(string \<Rightarrow> error + string) \<Rightarrow> int \<Rightarrow> string list \<Rightarrow> executionTask list \<times> int
     \<Rightarrow> error + executionTask list \<times> int"
where
  "filesLoop readFile r [] st = Inr st"
| "filesLoop readFile r (file # files) st =
     (case readFile file of
        Inl e \<Rightarrow> Inl (Wrap (''failed to read file '' @ file @ '': '') e)
      | Inr data \<Rightarrow> filesLoop readFile r files (repeatLoop data file r 0 st))"

text \<open>
  Reading piped standard input: \<open>reader.ReadString('\n')\<close> is called until it reports
  \<open>io.EOF\<close> or another error. The \<open>k\<close>-th call returns \<open>stdinRead k\<close>. A reader that never
  reports either keeps the loop running forever, which is the value \<open>None\<close>.
\<close>

partial_function (option) readStdin ::
  "(nat \<Rightarrow> string \<times> error option) \<Rightarrow> nat \<Rightarrow> string \<Rightarrow> (error + string) option"
where
  "readStdin rd k builder =
     (case rd k of
        (line, None) \<Rightarrow> readStdin rd (Suc k) (builder @ line)
      | (line, Some e) \<Rightarrow>
          if e = EOF then Some (Inr (builder @ line))
          else Some (Inl (Wrap ''failed to read from stdin: '' e)))"

text \<open>
  The environment of \<open>openEditor\<close>: the two environment variables, \<open>exec.LookPath\<close>,
  the outcome of creating the temporary file and of writing the template into it, the
  outcome of running the editor, the content read back from the file (depending on the
  editor and on the template it was given), and \<open>strings.TrimSpace\<close> of the Go library.
\<close>

record editorEnv =
  envEDITOR :: string
  envVISUAL :: string
  lookPath :: "string \<Rightarrow> bool"
  createTemp :: "error option"
  writeString :: "error option"
  cmdRun :: "string \<Rightarrow> error option"
  readEdited :: "string \<Rightarrow> string \<Rightarrow> error + string"
  trimSpace :: "string \<Rightarrow> string"

definition getEditorTemplate :: "string \<Rightarrow> string" where
  "getEditorTemplate language =
     (let comment =
        (if language = ''python'' then ''# ''
         else if language = ''javascript'' \<or> language = ''typescript'' \<or> language = ''java''
         then ''// ''
         else if language = ''bash'' then ''# ''
         else if language = ''r'' then ''# ''
         else ''# '')
      in comment @ ''AGS Code Editor'' @ [CHR 0x0A]
         @ comment @ ''Write your '' @ language @ '' code below, save and exit to execute.''
         @ [CHR 0x0A]
         @ comment @ ''Leave empty or unchanged to cancel.'' @ [CHR 0x0A, CHR 0x0A])"

definition chooseEditor :: "editorEnv \<Rightarrow> error + string" where
  "chooseEditor ed =
     (let editor = envEDITOR ed;
          editor = (if editor = [] then envVISUAL ed else editor)
      in if editor = [] then
           (if lookPath ed ''vim'' then Inr ''vim''
            else if lookPath ed ''vi'' then Inr ''vi''
            else if lookPath ed ''nano'' then Inr ''nano''
            else Inl (Err ''no editor found: set $EDITOR environment variable''))
         else Inr editor)"

definition openEditor :: "editorEnv \<Rightarrow> string \<Rightarrow> error + string" where
  "openEditor ed language =
     (case chooseEditor ed of
        Inl e \<Rightarrow> Inl e
      | Inr editor \<Rightarrow>
          (case createTemp ed of
             Some e \<Rightarrow> Inl (Wrap ''failed to create temp file: '' e)
           | None \<Rightarrow>
               let template = getEditorTemplate language in
               (case writeString ed of
                  Some e \<Rightarrow> Inl (Wrap ''failed to write template: '' e)
                | None \<Rightarrow>
                    (case cmdRun ed editor of
                       Some e \<Rightarrow> Inl (Wrap ''editor exited with error: '' e)
                     | None \<Rightarrow>
                         (case readEdited ed editor template of
                            Inl e \<Rightarrow> Inl (Wrap ''failed to read edited file: '' e)
                          | Inr data \<Rightarrow>
                              let codeStr = trimSpace ed data in
                              if codeStr = [] \<or> codeStr = trimSpace ed template
                              then Inr []
                              else Inr codeStr)))))"

text \<open>
  The environment of \<open>buildTasks\<close>: \<open>os.ReadFile\<close>, the outcome of \<open>os.Stdin.Stat()\<close>
  (\<open>None\<close> when it fails, which leaves \<open>stat\<close> nil; otherwise whether standard input is a
  character device), the reads of standard input, and the editor.
\<close>

record buildEnv =
  readFile :: "string \<Rightarrow> error + string"
  stdinCharDevice :: "bool option"
  stdinRead :: "nat \<Rightarrow> string \<times> error option"
  editor :: editorEnv

text \<open>
  \<open>buildTasks\<close>. The result is \<open>None\<close> when the function does not return (standard input
  never ends), otherwise the returned pair \<open>(tasks, err)\<close> as a sum. \<open>taskID\<close> starts at 1.
\<close>

definition buildTasks :: "runFlags \<Rightarrow> buildEnv \<Rightarrow> string \<Rightarrow> (error + executionTask list) option" where
  "buildTasks fl env language =
     (if runCode fl \<noteq> [] then
        Some (Inr (fst (repeatLoop (runCode fl) ''<code>'' (runRepeat fl) 0 ([], 1))))
      else if length (runFiles fl) > 0 then
        (case filesLoop (readFile env) (runRepeat fl) (runFiles fl) ([], 1) of
           Inl e \<Rightarrow> Some (Inl e)
         | Inr st \<Rightarrow> Some (Inr (fst st)))
      else
        (case stdinCharDevice env of
           None \<Rightarrow> Some (Inl (Panic ''nil pointer dereference''))
         | Some False \<Rightarrow>
             (case readStdin (stdinRead env) 0 [] of
                None \<Rightarrow> None
              | Some (Inl e) \<Rightarrow> Some (Inl e)
              | Some (Inr codeStr) \<Rightarrow>
                  Some (Inr (if codeStr \<noteq> []
                             then fst (repeatLoop codeStr ''<stdin>'' (runRepeat fl) 0 ([], 1))
                             else [])))
         | Some True \<Rightarrow>
             (case openEditor (editor env) language of
                Inl e \<Rightarrow> Some (Inl e)
              | Inr codeStr \<Rightarrow>
                  Some (Inr (if codeStr \<noteq> []
                             then fst (repeatLoop codeStr ''<editor>'' (runRepeat fl) 0 ([], 1))
                             else [])))))"

section \<open>Results of tasks\<close>

text \<open>
  \<open>toolcode.Execution\<close> of the SDK, as far as the command reads it: the rich result payloads
  (opaque here), the two log streams, and the optional structured execution error.
\<close>

record executionError =
  Name :: string
  Value :: string
  Traceback :: string

record execution =
  Results :: "string list"
  Stdout :: "string list"
  Stderr :: "string list"
  Error :: "executionError option"

record sandbox =
  SandboxId :: string

record taskResult =
  task :: executionTask
  result :: "execution option"
  err :: "error option"
  createDuration :: duration
  execDuration :: duration
  totalDuration :: duration

text \<open>The zero value of a Go struct, which \<open>make([]taskResult, n)\<close> fills the slice with.\<close>

definition zeroTask :: executionTask where
  "zeroTask = \<lparr>id' = 0, code = [], source = [], instanceNo = 0, totalInst = 0\<rparr>"

definition zeroTaskResult :: taskResult where
  "zeroTaskResult =
     \<lparr>task = zeroTask, result = None, err = None,
      createDuration = 0, execDuration = 0, totalDuration = 0\<rparr>"

text \<open>
  The collaborators of the runners, as parameters:
  \<^item> \<open>validateConfig\<close>: \<open>config.Validate()\<close>; \<open>outputFormat\<close>: \<open>config.GetOutput()\<close>;
    \<open>formatterIsJSON\<close>: \<open>IsJSON()\<close> of the formatter;
  \<^item> \<open>connectSandbox\<close>: \<open>ConnectSandboxWithCache\<close> on an instance id;
  \<^item> \<open>createSandbox i\<close>: the call of \<open>code.Create\<close> made for the task at index \<open>i\<close> (index 0 for
    the one call of the single and sequential paths), \<open>createTime i\<close> the time measured
    around it;
  \<^item> \<open>runCodeResult sb earlier c\<close>: what \<open>RunCode\<close> returns for code \<open>c\<close> in sandbox \<open>sb\<close> after
    the codes \<open>earlier\<close> ran in it (the sandbox keeps its state between tasks);
  \<^item> \<open>execTime i\<close>, \<open>totalTime i\<close>: the execution time and the whole time measured for the
    task at index \<open>i\<close>;
  \<^item> \<open>printResult\<close>: the error returned by the formatter's \<open>PrintExecResult\<close> or
    \<open>PrintMultiTaskResult\<close>.
\<close>

record runEnv =
  validateConfig :: "error option"
  outputFormat :: string
  formatterIsJSON :: bool
  connectSandbox :: "string \<Rightarrow> error + sandbox"
  createSandbox :: "nat \<Rightarrow> error + sandbox"
  createTime :: "nat \<Rightarrow> duration"
  runCodeResult :: "sandbox \<Rightarrow> string list \<Rightarrow> string \<Rightarrow> execution option \<times> error option"
  execTime :: "nat \<Rightarrow> duration"
  totalTime :: "nat \<Rightarrow> duration"
  printResult :: "error option"

section \<open>The sequential runner\<close>

text \<open>
  The loop that fills every slot with the same acquisition error:
  \<^verbatim>\<open>for i, task := range tasks { results[i] = taskResult{task: task, err: ...} }\<close>
\<close>

definition failAll :: "error \<Rightarrow> executionTask list \<Rightarrow> taskResult list \<Rightarrow> taskResult list" where
  "failAll e tasks results =
     fold (\<lambda>i rs. rs[i := zeroTaskResult\<lparr>task := tasks ! i, err := Some e\<rparr>])
       [0..<length tasks] results"

text \<open>
  One iteration of \<open>for i, task := range tasks\<close> of \<open>runTasksSequential\<close>. The state is the
  results slice and the codes already passed to \<open>RunCode\<close> in the shared sandbox.
\<close>

definition seqIter ::
  "runEnv \<Rightarrow> sandbox \<Rightarrow> duration \<Rightarrow> executionTask list \<Rightarrow> nat
     \<Rightarrow> taskResult list \<times> string list \<Rightarrow> taskResult list \<times> string list"
where
  "seqIter env sb sandboxCreateDuration tasks i st =
     (case st of (results, executed) \<Rightarrow>
        (case runCodeResult env sb executed (code (tasks ! i)) of (res, e) \<Rightarrow>
           let execD = execTime env i;
               r = \<lparr>task = tasks ! i, result = res, err = e,
                    createDuration = 0, execDuration = execD, totalDuration = execD\<rparr>;
               r = (if i = 0 \<and> 0 <s sandboxCreateDuration
                    then r\<lparr>createDuration := sandboxCreateDuration,
                           totalDuration := sandboxCreateDuration + execD\<rparr>
                    else r)
           in (results[i := r], executed @ [code (tasks ! i)])))"

text \<open>
  \<open>runTasksSequential\<close> returns the results slice; the model returns with it the codes that
  were passed to \<open>RunCode\<close>, in order.
\<close>

definition runTasksSequential ::
  "runFlags \<Rightarrow> runEnv \<Rightarrow> executionTask list \<Rightarrow> taskResult list \<times> string list"
where
  "runTasksSequential fl env tasks =
     (let results = replicate (length tasks) zeroTaskResult
      in if runInstance fl \<noteq> [] then
           (case connectSandbox env (runInstance fl) of
              Inl e \<Rightarrow> (failAll (Wrap ''failed to connect to instance: '' e) tasks results, [])
            | Inr sb \<Rightarrow> fold (seqIter env sb 0 tasks) [0..<length tasks] (results, []))
         else
           (case createSandbox env 0 of
              Inl e \<Rightarrow> (failAll (Wrap ''failed to create sandbox: '' e) tasks results, [])
            | Inr sb \<Rightarrow>
                fold (seqIter env sb (createTime env 0) tasks) [0..<length tasks] (results, [])))"

section \<open>Aggregating results\<close>

text \<open>
  How a call ends: \<open>os.Exit(c)\<close>, a return of an error value (nil is \<open>None\<close>), or a panic.
\<close>

datatype outcome = Exit int | Return "error option" | Panicked string

text \<open>\<open>err.Error()\<close>: the message of an error, a wrapped error behind its prefix.\<close>

fun errorString :: "error \<Rightarrow> string" where
  "errorString (Err m) = m"
| "errorString (Wrap prefix e) = prefix @ errorString e"
| "errorString (Panic m) = m"

text \<open>
  \<open>output.TaskSummary\<close> and \<open>output.TaskResult\<close>, without the display-only timing and rich
  payloads. The fields \<open>Success\<close>, \<open>Stdout\<close>, \<open>Stderr\<close> and \<open>Error\<close> of \<open>output.TaskResult\<close> carry
  the prefix \<open>Task\<close>, since the summary and the execution have fields of the same names.
\<close>

record taskSummary =
  Total :: int
  Success :: int
  Failed :: int

record outTaskResult =
  ID :: int
  Source :: string
  Instance :: int
  TotalInst :: int
  TaskSuccess :: bool
  ErrorMsg :: string
  TaskStdout :: "string list"
  TaskStderr :: "string list"
  TaskError :: "executionError option"

definition zeroOutTaskResult :: outTaskResult where
  "zeroOutTaskResult =
     \<lparr>ID = 0, Source = [], Instance = 0, TotalInst = 0, TaskSuccess = False, ErrorMsg = [],
      TaskStdout = [], TaskStderr = [], TaskError = None\<rparr>"

text \<open>
  The block that ends each of the three modes of \<open>printMultiTaskResults\<close>:
  \<^verbatim>\<open>if failed > 0 { if failed == len(results) { os.Exit(2) }; os.Exit(1) }; return nil\<close>
\<close>

definition exitByFailed :: "int \<Rightarrow> nat \<Rightarrow> outcome" where
  "exitByFailed failed n =
     (if failed > 0 then (if failed = int n then Exit 2 else Exit 1) else Return None)"

text \<open>The body of the first counting loop, on the pair \<open>(success, failed)\<close>.\<close>

definition countIter :: "taskResult \<Rightarrow> int \<times> int \<Rightarrow> int \<times> int" where
  "countIter r c =
     (case c of (success, failed) \<Rightarrow>
        if err r \<noteq> None \<or> (result r \<noteq> None \<and> Error (the (result r)) \<noteq> None)
        then (success, failed + 1)
        else (success + 1, failed))"

text \<open>
  The body of the second loop, \<open>for i, r := range results\<close>, which fills the formatter's rows
  and counts again. The state is \<open>(taskResults, success, failed)\<close>.
\<close>

definition rowIter ::
  "taskResult list \<Rightarrow> nat \<Rightarrow> outTaskResult list \<times> int \<times> int \<Rightarrow> outTaskResult list \<times> int \<times> int"
where
  "rowIter results i st =
     (case st of (taskResults, success, failed) \<Rightarrow>
        let r = results ! i;
            t = \<lparr>ID = id' (task r), Source = source (task r), Instance = instanceNo (task r),
                 TotalInst = totalInst (task r), TaskSuccess = True, ErrorMsg = [],
                 TaskStdout = [], TaskStderr = [], TaskError = None\<rparr>
        in (case err r of
              Some e \<Rightarrow>
                (taskResults[i := t\<lparr>TaskSuccess := False, ErrorMsg := errorString e\<rparr>],
                 success, failed + 1)
            | None \<Rightarrow>
                (case result r of
                   Some x \<Rightarrow>
                     (let t = t\<lparr>TaskStdout := Stdout x, TaskStderr := Stderr x\<rparr>
                      in case Error x of
                           Some ee \<Rightarrow>
                             (taskResults[i := t\<lparr>TaskSuccess := False, TaskError := Some ee\<rparr>],
                              success, failed + 1)
                         | None \<Rightarrow> (taskResults[i := t], success + 1, failed))
                 | None \<Rightarrow> (taskResults[i := t], success + 1, failed))))"

text \<open>
  \<open>printMultiTaskResults\<close>: the summary it prints, the rows it hands to the formatter (none
  in the two modes that printed the tasks already), and how it ends.
\<close>

record multiOut =
  mo_summary :: taskSummary
  mo_rows :: "outTaskResult list"
  mo_outcome :: outcome

definition printMultiTaskResults :: "runFlags \<Rightarrow> runEnv \<Rightarrow> taskResult list \<Rightarrow> multiOut" where
  "printMultiTaskResults fl env results =
     (case fold countIter results (0, 0) of (success, failed) \<Rightarrow>
        let summary = \<lparr>Total = int (length results), Success = success, Failed = failed\<rparr>
        in if runStream fl then
             \<lparr>mo_summary = summary, mo_rows = [],
              mo_outcome = exitByFailed failed (length results)\<rparr>
           else if \<not> formatterIsJSON env \<and> runParallel fl then
             \<lparr>mo_summary = summary, mo_rows = [],
              mo_outcome = exitByFailed failed (length results)\<rparr>
           else
             (case fold (rowIter results) [0..<length results]
                     (replicate (length results) zeroOutTaskResult, 0, 0) of
                (taskResults, success, failed) \<Rightarrow>
                  let summary = summary\<lparr>Success := success, Failed := failed\<rparr>
                  in (case printResult env of
                        Some e \<Rightarrow>
                          \<lparr>mo_summary = summary, mo_rows = taskResults,
                           mo_outcome = Return (Some e)\<rparr>
                      | None \<Rightarrow>
                          \<lparr>mo_summary = summary, mo_rows = taskResults,
                           mo_outcome = exitByFailed failed (length results)\<rparr>)))"

section \<open>The single-task path\<close>



section \<open>The parallel runner\<close>

text \<open>
  \<open>runTasksParallel\<close> starts one goroutine per task. Each goroutine is a small sequential
  program whose only blocking points are the send on the semaphore channel, the two remote
  calls and the deferred receive from the channel, so its position is one of:
  \<^item> \<open>Pending\<close>: started, before \<open>sem <- struct{}{}\<close>;
  \<^item> \<open>Acquiring\<close>: past the send, inside \<open>code.Create\<close>;
  \<^item> \<open>Running sb\<close>: sandbox \<open>sb\<close> created and tracked, inside \<open>RunCode\<close>;
  \<^item> \<open>Finishing\<close>: its result written to its slot, before the deferred \<open><-sem\<close>;
  \<^item> \<open>Done\<close>: token given back, \<open>wg.Done()\<close> called.
\<close>

datatype stage = Pending | Acquiring | Running sandbox | Finishing | Done

text \<open>
  The shared state: the position of every goroutine, the number of tokens in the channel
  \<open>sem\<close>, the results slice, the tracked sandboxes, the results sent to \<open>resultChan\<close> (in the
  order sent), and the codes passed to \<open>RunCode\<close> with the index of their task.
\<close>

record pstate =
  pc :: "stage list"
  sem :: nat
  results :: "taskResult list"
  sandboxes :: "sandbox list"
  resultChan :: "taskResult list"
  executed :: "(nat \<times> string) list"

text \<open>The capacity of the semaphore channel, \<open>maxParallel\<close> of the source.\<close>

definition maxParallel :: "runFlags \<Rightarrow> executionTask list \<Rightarrow> int" where
  "maxParallel fl tasks =
     (let m = runMaxParallel fl
      in if m \<le> 0 \<or> m > int (length tasks) then int (length tasks) else m)"

text \<open>\<open>resultChan\<close> is made only in text mode without streaming; otherwise it is nil.\<close>

definition hasResultChan :: "runFlags \<Rightarrow> runEnv \<Rightarrow> bool" where
  "hasResultChan fl env = (outputFormat env \<noteq> ''json'' \<and> \<not> runStream fl)"

definition initParallel :: "executionTask list \<Rightarrow> pstate" where
  "initParallel tasks =
     \<lparr>pc = replicate (length tasks) Pending, sem = 0,
      results = replicate (length tasks) zeroTaskResult,
      sandboxes = [], resultChan = [], executed = []\<rparr>"

text \<open>
  The next step of goroutine \<open>idx\<close>, or \<open>None\<close> when it cannot move: a send on a full channel
  and a receive from an empty one block, a finished goroutine has no step. The writes to
  the shared slices are made under their locks, hence atomic.
\<close>

definition goStep ::
  "runFlags \<Rightarrow> runEnv \<Rightarrow> executionTask list \<Rightarrow> nat \<Rightarrow> pstate \<Rightarrow> pstate option"
where
  "goStep fl env tasks idx s =
     (if idx \<ge> length (pc s) then None
      else
        (case pc s ! idx of
           Pending \<Rightarrow>
             if int (sem s) < maxParallel fl tasks
             then Some (s\<lparr>pc := (pc s)[idx := Acquiring], sem := sem s + 1\<rparr>)
             else None
         | Acquiring \<Rightarrow>
             (case createSandbox env idx of
                Inl e \<Rightarrow>
                  let r = \<lparr>task = tasks ! idx, result = None,
                           err = Some (Wrap ''failed to create sandbox: '' e),
                           createDuration = 0, execDuration = 0,
                           totalDuration = totalTime env idx\<rparr>
                  in Some (s\<lparr>pc := (pc s)[idx := Finishing],
                             results := (results s)[idx := r],
                             resultChan := (if hasResultChan fl env then resultChan s @ [r]
                                            else resultChan s)\<rparr>)
              | Inr sb \<Rightarrow>
                  Some (s\<lparr>pc := (pc s)[idx := Running sb],
                          sandboxes := sandboxes s @ [sb],
                          executed := executed s @ [(idx, code (tasks ! idx))]\<rparr>))
         | Running sb \<Rightarrow>
             (case runCodeResult env sb [] (code (tasks ! idx)) of (res, e) \<Rightarrow>
                let r = \<lparr>task = tasks ! idx, result = res, err = e,
                         createDuration = createTime env idx, execDuration = execTime env idx,
                         totalDuration = totalTime env idx\<rparr>
                in Some (s\<lparr>pc := (pc s)[idx := Finishing],
                           results := (results s)[idx := r],
                           resultChan := (if hasResultChan fl env then resultChan s @ [r]
                                          else resultChan s)\<rparr>))
         | Finishing \<Rightarrow>
             if sem s > 0
             then Some (s\<lparr>pc := (pc s)[idx := Done], sem := sem s - 1\<rparr>)
             else None
         | Done \<Rightarrow> None))"

text \<open>
  A schedule is the list of goroutines the Go scheduler picks, one step each; picking a
  goroutine that is blocked or finished changes nothing.
\<close>

definition schedStep ::
  "runFlags \<Rightarrow> runEnv \<Rightarrow> executionTask list \<Rightarrow> nat \<Rightarrow> pstate \<Rightarrow> pstate"
where
  "schedStep fl env tasks idx s =
     (case goStep fl env tasks idx s of None \<Rightarrow> s | Some s' \<Rightarrow> s')"

definition runSchedule ::
  "runFlags \<Rightarrow> runEnv \<Rightarrow> executionTask list \<Rightarrow> nat list \<Rightarrow> pstate"
where
  "runSchedule fl env tasks sched = fold (schedStep fl env tasks) sched (initParallel tasks)"

text \<open>The number of goroutines between the send on \<open>sem\<close> and the deferred receive.\<close>

fun insideGate :: "stage \<Rightarrow> bool" where
  "insideGate Pending = False"
| "insideGate Acquiring = True"
| "insideGate (Running sb) = True"
| "insideGate Finishing = True"
| "insideGate Done = False"

definition inGate :: "pstate \<Rightarrow> nat" where
  "inGate s = length (filter insideGate (pc s))"

text \<open>
  \<open>wg.Wait()\<close>: once the given schedule is used up, the goroutines that can still move keep
  being run (the lowest index first) until none can. The steps left to a goroutine bound
  the recursion.
\<close>

fun stepsLeft :: "stage \<Rightarrow> nat" where
  "stepsLeft Pending = 4"
| "stepsLeft Acquiring = 3"
| "stepsLeft (Running sb) = 2"
| "stepsLeft Finishing = 1"
| "stepsLeft Done = 0"

function waitAll :: "runFlags \<Rightarrow> runEnv \<Rightarrow> executionTask list \<Rightarrow> pstate \<Rightarrow> pstate" where
  "waitAll fl env tasks s =
     (case List.find (\<lambda>i. goStep fl env tasks i s \<noteq> None) [0..<length (pc s)] of
        None \<Rightarrow> s
      | Some i \<Rightarrow>
          (case goStep fl env tasks i s of
             None \<Rightarrow> s
           | Some s' \<Rightarrow> waitAll fl env tasks s'))"
  by pat_completeness auto
termination
proof (relation "measure (\<lambda>(fl, env, tasks, s). sum_list (map stepsLeft (pc s)))")
  show "wf (measure (\<lambda>(fl, env, tasks, s). sum_list (map stepsLeft (pc s))))"
    by simp
next
  fix fl :: runFlags and env :: runEnv and tasks :: "executionTask list"
    and s s' :: pstate and i :: nat
  assume st: "goStep fl env tasks i s = Some s'"
  have upd: "\<And>xs v. i < length xs \<Longrightarrow> stepsLeft v < stepsLeft (xs ! i)
      \<Longrightarrow> sum_list (map stepsLeft (xs[i := v])) < sum_list (map stepsLeft xs)"
  proof -
    fix xs :: "stage list" and v
    assume "i < length xs" and "stepsLeft v < stepsLeft (xs ! i)"
    then show "sum_list (map stepsLeft (xs[i := v])) < sum_list (map stepsLeft xs)"
    proof (induction xs arbitrary: i)
      case Nil
      then show ?case by simp
    next
      case (Cons x xs)
      then show ?case by (cases i) auto
    qed
  qed
  from st have "sum_list (map stepsLeft (pc s')) < sum_list (map stepsLeft (pc s))"
    by (auto simp: goStep_def Let_def intro!: upd
        split: if_splits stage.splits sum.splits prod.splits)
  then show "((fl, env, tasks, s'), (fl, env, tasks, s))
      \<in> measure (\<lambda>(fl, env, tasks, s). sum_list (map stepsLeft (pc s)))"
    by simp
qed

declare waitAll.simps [simp del]

text \<open>
  \<open>runTasksParallel\<close> under a schedule: the results slice once every goroutine is done, with
  the codes that were passed to \<open>RunCode\<close>. \<open>None\<close> is a \<open>wg.Wait()\<close> that never returns.
\<close>

definition runTasksParallel ::
  "runFlags \<Rightarrow> runEnv \<Rightarrow> nat list \<Rightarrow> executionTask list
     \<Rightarrow> (taskResult list \<times> string list) option"
where
  "runTasksParallel fl env sched tasks =
     (let s = waitAll fl env tasks (runSchedule fl env tasks sched)
      in if list_all (\<lambda>st. st = Done) (pc s)
         then Some (results s, map snd (executed s))
         else None)"

section \<open>Dispatch\<close>




text \<open>
  The exit status of the process: \<open>os.Exit(c)\<close> gives \<open>c\<close>; \<open>Execute\<close> exits with 1 when the
  command returned an error and the process ends with 0 otherwise; the Go runtime exits
  with 2 on a panic.
\<close>

fun processExit :: "outcome \<Rightarrow> int" where
  "processExit (Exit c) = c"
| "processExit (Return None) = 0"
| "processExit (Return (Some e)) = 1"
| "processExit (Panicked m) = 2"

section \<open>The specification's notions\<close>

text \<open>
  The definitions of this section follow the words of the specification, not the code; the
  theorems below compare them with the code.

  The \<open>r\<close> repetitions of one source, numbered from \<open>tid\<close>: repetition \<open>j + 1\<close> of \<open>r\<close> has id
  \<open>tid + j\<close>.
\<close>

definition specInstances :: "string \<Rightarrow> string \<Rightarrow> int \<Rightarrow> int \<Rightarrow> executionTask list" where
  "specInstances c src r tid =
     map (\<lambda>j. \<lparr>id' = tid + int j, code = c, source = src,
                 instanceNo = int j + 1, totalInst = r\<rparr>) [0..<nat r]"

text \<open>Files in order, each expanded into its \<open>r\<close> repetitions, ids running on.\<close>

fun specFileTasks :: "(string \<Rightarrow> string) \<Rightarrow> int \<Rightarrow> int \<Rightarrow> string list \<Rightarrow> executionTask list" where
  "specFileTasks content r tid [] = []"
| "specFileTasks content r tid (f # fs) =
     specInstances (content f) f r tid @ specFileTasks content r (tid + r) fs"

text \<open>
  A task counts as failed if the transport or creation step failed, or the remote
  execution reported an execution error.
\<close>

definition specFailed :: "taskResult \<Rightarrow> bool" where
  "specFailed r = (err r \<noteq> None \<or> (\<exists>x. result r = Some x \<and> Error x \<noteq> None))"

text \<open>
  The effective parallelism limit: the smaller of the configured limit and the task count
  when the configured limit is positive, the task count otherwise.
\<close>

definition specLimit :: "int \<Rightarrow> nat \<Rightarrow> nat" where
  "specLimit L n = (if L > 0 then min (nat L) n else n)"

section \<open>Concrete inputs\<close>

text \<open>
  The defaults of the flags, as \<open>addRunCommand\<close> declares them, and one environment in which
  every collaborator succeeds: files hold a comment naming them, standard input is a
  terminal, no editor is installed, sandboxes are created in 5 ns and run any code in 7 ns
  without an execution error.
\<close>

definition defaultFlags :: runFlags where
  "defaultFlags =
     \<lparr>runCode = [], runFiles = [], runInstance = [], runTool = ''code-interpreter-v1'',
      runLanguage = ''python'', runKeepAlive = False, runStream = False, runTime = False,
      runRepeat = 1, runParallel = False, runMaxParallel = 0\<rparr>"

definition plainEditor :: editorEnv where
  "plainEditor =
     \<lparr>envEDITOR = [], envVISUAL = [], lookPath = (\<lambda>p. False), createTemp = None,
      writeString = None, cmdRun = (\<lambda>ed. None), readEdited = (\<lambda>ed template. Inr template),
      trimSpace = (\<lambda>x. x)\<rparr>"

definition plainBuildEnv :: buildEnv where
  "plainBuildEnv =
     \<lparr>readFile = (\<lambda>f. Inr (''# '' @ f)), stdinCharDevice = Some True,
      stdinRead = (\<lambda>k. ([], Some EOF)), editor = plainEditor\<rparr>"

definition okExecution :: execution where
  "okExecution = \<lparr>Results = [], Stdout = [''ok''], Stderr = [], Error = None\<rparr>"

definition plainRunEnv :: runEnv where
  "plainRunEnv =
     \<lparr>validateConfig = None, outputFormat = ''text'', formatterIsJSON = False,
      connectSandbox = (\<lambda>i. Inr \<lparr>SandboxId = i\<rparr>),
      createSandbox = (\<lambda>i. Inr \<lparr>SandboxId = ''sbx''\<rparr>),
      createTime = (\<lambda>i. 5),
      runCodeResult = (\<lambda>sb earlier c. (Some okExecution, None)),
      execTime = (\<lambda>i. 7), totalTime = (\<lambda>i. 12), printResult = None\<rparr>"

definition sampleTask :: executionTask where
  "sampleTask =
     \<lparr>id' = 1, code = ''print(1)'', source = ''<code>'', instanceNo = 1, totalInst = 1\<rparr>"

text \<open>
  Three results: a success, a failed sandbox creation, and a run whose code raised.
\<close>

definition okResult :: taskResult where
  "okResult =
     \<lparr>task = sampleTask, result = Some okExecution, err = None,
      createDuration = 5, execDuration = 7, totalDuration = 12\<rparr>"

definition createFailedResult :: taskResult where
  "createFailedResult =
     \<lparr>task = sampleTask, result = None,
      err = Some (Wrap ''failed to create sandbox: '' (Err ''quota exceeded'')),
      createDuration = 0, execDuration = 0, totalDuration = 0\<rparr>"

definition raisedExecution :: execution where
  "raisedExecution =
     \<lparr>Results = [], Stdout = [], Stderr = [],
      Error = Some \<lparr>Name = ''SystemExit'', Value = ''3'', Traceback = []\<rparr>\<rparr>"

definition execErrorResult :: taskResult where
  "execErrorResult =
     \<lparr>task = sampleTask, result = Some raisedExecution, err = None,
      createDuration = 5, execDuration = 7, totalDuration = 12\<rparr>"

section \<open>Closed forms\<close>

text \<open>
  The result the sequential loop writes at index \<open>i\<close>, in a sandbox \<open>sb\<close> whose creation took
  \<open>d\<close>: \<open>RunCode\<close> sees the codes of the tasks before \<open>i\<close>.
\<close>

definition seqResult :: "runEnv \<Rightarrow> sandbox \<Rightarrow> duration \<Rightarrow> executionTask list \<Rightarrow> nat \<Rightarrow> taskResult" where
  "seqResult env sb d tasks i =
     \<lparr>task = tasks ! i,
      result = fst (runCodeResult env sb (map code (take i tasks)) (code (tasks ! i))),
      err = snd (runCodeResult env sb (map code (take i tasks)) (code (tasks ! i))),
      createDuration = (if i = 0 \<and> 0 <s d then d else 0),
      execDuration = execTime env i,
      totalDuration = (if i = 0 \<and> 0 <s d then d + execTime env i else execTime env i)\<rparr>"

text \<open>The result goroutine \<open>i\<close> of the parallel runner writes into its slot.\<close>

definition parResult :: "runEnv \<Rightarrow> executionTask list \<Rightarrow> nat \<Rightarrow> taskResult" where
  "parResult env tasks i =
     (case createSandbox env i of
        Inl e \<Rightarrow>
          \<lparr>task = tasks ! i, result = None,
           err = Some (Wrap ''failed to create sandbox: '' e),
           createDuration = 0, execDuration = 0, totalDuration = totalTime env i\<rparr>
      | Inr sb \<Rightarrow>
          \<lparr>task = tasks ! i,
           result = fst (runCodeResult env sb [] (code (tasks ! i))),
           err = snd (runCodeResult env sb [] (code (tasks ! i))),
           createDuration = createTime env i, execDuration = execTime env i,
           totalDuration = totalTime env i\<rparr>)"

text \<open>
  The invariant of the parallel runner: the slices keep their length, the channel holds
  one token per goroutine inside the gate and never more than its capacity, a goroutine
  in \<open>RunCode\<close> holds the sandbox created for it, and a goroutine past its write has left
  its own result in its own slot.
\<close>

definition parInv :: "runFlags \<Rightarrow> runEnv \<Rightarrow> executionTask list \<Rightarrow> pstate \<Rightarrow> bool" where
  "parInv fl env tasks s =
     (length (pc s) = length tasks
      \<and> length (results s) = length tasks
      \<and> sem s = inGate s
      \<and> int (sem s) \<le> maxParallel fl tasks
      \<and> (\<forall>i < length tasks. \<forall>sb. pc s ! i = Running sb \<longrightarrow> createSandbox env i = Inr sb)
      \<and> (\<forall>i < length tasks. pc s ! i = Finishing \<or> pc s ! i = Done
             \<longrightarrow> results s ! i = parResult env tasks i))"

text \<open>Inputs for the runners: three tasks, and an environment whose sandbox creation fails.\<close>

definition threeTasks :: "executionTask list" where
  "threeTasks =
     [\<lparr>id' = 1, code = ''print(1)'', source = ''<code>'', instanceNo = 1, totalInst = 3\<rparr>,
      \<lparr>id' = 2, code = ''print(1)'', source = ''<code>'', instanceNo = 2, totalInst = 3\<rparr>,
      \<lparr>id' = 3, code = ''print(1)'', source = ''<code>'', instanceNo = 3, totalInst = 3\<rparr>]"

definition noQuota :: "nat \<Rightarrow> error + sandbox" where
  "noQuota i = Inl (Err ''quota exceeded'')"

definition noQuotaEnv :: runEnv where
  "noQuotaEnv = plainRunEnv\<lparr>createSandbox := noQuota\<rparr>"




text \<open>An environment whose formatter fails to print.\<close>

definition printFailEnv :: runEnv where
  "printFailEnv = plainRunEnv\<lparr>printResult := Some (Err ''write failed'')\<rparr>"

section \<open>Properties of task building\<close>

lemma upt_0_Suc_shift: "[0..<Suc k] = 0 # map Suc [0..<k]"
  by (simp add: upt_conv_Cons map_Suc_upt del: upt_Suc)

lemma repeatLoop_from:
  "0 \<le> i \<Longrightarrow> i \<le> max r 1 \<Longrightarrow>
   repeatLoop c src r i st =
     (fst st @ map (\<lambda>j. \<lparr>id' = snd st + int j, code = c, source = src,
                       instanceNo = i + int j + 1, totalInst = max r 1\<rparr>)
             [0..<nat (max r 1 - i)],
      snd st + (max r 1 - i))"
proof (induction c src r i st rule: repeatLoop.induct)
  case (1 codeStr src r i tasks taskID)
  show ?case
  proof (cases "i < max r 1")
    case True
    then have k: "nat (max r 1 - i) = Suc (nat (max r 1 - (i + 1)))"
      by linarith
    have le: "0 \<le> i + 1" "i + 1 \<le> max r 1"
      using True "1.prems" by linarith+
    show ?thesis
      unfolding repeatLoop.simps [of codeStr src r i tasks taskID] k upt_0_Suc_shift
      using True "1.IH" [OF True le]
      by (simp add: comp_def add.assoc add.commute add.left_commute)
  next
    case False
    with "1.prems" have eq: "max r 1 - i = 0" by linarith
    show ?thesis
      unfolding repeatLoop.simps [of codeStr src r i tasks taskID] eq
      using False by simp
  qed
qed

lemma repeatLoop_0:
  "repeatLoop c src r 0 (ts, tid) =
     (ts @ map (\<lambda>j. \<lparr>id' = tid + int j, code = c, source = src,
                       instanceNo = int j + 1, totalInst = max r 1\<rparr>)
             [0..<nat (max r 1)],
      tid + max r 1)"
  using repeatLoop_from [of 0 r c src "(ts, tid)"] by simp

lemma repeatLoop_spec:
  "repeatLoop c src r 0 (ts, tid) = (ts @ specInstances c src (max r 1) tid, tid + max r 1)"
  by (simp add: repeatLoop_0 specInstances_def)

lemma filesLoop_readable:
  "\<forall>f \<in> set files. rf f = Inr (content f) \<Longrightarrow>
   filesLoop rf r files (ts, tid) =
     Inr (ts @ specFileTasks content (max r 1) tid files, tid + max r 1 * int (length files))"
proof (induction files arbitrary: ts tid)
  case Nil
  then show ?case by simp
next
  case (Cons f files)
  then show ?case
    by (simp add: repeatLoop_spec algebra_simps)
qed

lemma filesLoop_Inr_readable:
  "filesLoop rf r files st = Inr st' \<Longrightarrow> \<forall>f \<in> set files. \<exists>d. rf f = Inr d"
  by (induction files arbitrary: st) (auto split: sum.splits)

lemma length_specInstances [simp]: "length (specInstances c src r tid) = nat r"
  by (simp add: specInstances_def)

lemma length_specFileTasks:
  "length (specFileTasks content r tid fs) = length fs * nat r"
  by (induction fs arbitrary: tid) simp_all

lemma nth_specInstances:
  "i < nat r \<Longrightarrow> specInstances c src r tid ! i =
     \<lparr>id' = tid + int i, code = c, source = src, instanceNo = int i + 1, totalInst = r\<rparr>"
  by (simp add: specInstances_def)

lemma nth_specFileTasks:
  "1 \<le> r \<Longrightarrow> i < length fs * nat r \<Longrightarrow>
   specFileTasks content r tid fs ! i =
     \<lparr>id' = tid + int i, code = content (fs ! (i div nat r)), source = fs ! (i div nat r),
      instanceNo = int (i mod nat r) + 1, totalInst = r\<rparr>"
proof (induction fs arbitrary: tid i)
  case Nil
  then show ?case by simp
next
  case (Cons f fs)
  show ?case
  proof (cases "i < nat r")
    case True
    then show ?thesis
      by (simp add: nth_append nth_specInstances)
  next
    case False
    then have ge: "nat r \<le> i" by simp
    have pos: "0 < nat r" using Cons.prems(1) by simp
    have lt: "i - nat r < length fs * nat r"
      using Cons.prems(2) ge by simp
    have d: "i div nat r = Suc ((i - nat r) div nat r)"
      using le_div_geq [OF pos ge] .
    have m: "i mod nat r = (i - nat r) mod nat r"
      using le_mod_geq [OF ge] .
    have t: "tid + r + int (i - nat r) = tid + int i"
      using ge Cons.prems(1) by simp
    have ih: "specFileTasks content r (tid + r) fs ! (i - nat r) =
        \<lparr>id' = tid + int i, code = content (fs ! ((i - nat r) div nat r)),
         source = fs ! ((i - nat r) div nat r),
         instanceNo = int ((i - nat r) mod nat r) + 1, totalInst = r\<rparr>"
      using Cons.IH [OF Cons.prems(1) lt, of "tid + r"] unfolding t .
    show ?thesis
      using False ih by (simp add: nth_append d m)
  qed
qed

lemma filesLoop_Inr_spec:
  assumes "filesLoop rf r files (ts, tid) = Inr st'"
  shows "\<exists>content. (\<forall>f \<in> set files. rf f = Inr (content f))
           \<and> fst st' = ts @ specFileTasks content (max r 1) tid files"
proof -
  define content where "content = (\<lambda>f. case rf f of Inr d \<Rightarrow> d | Inl e \<Rightarrow> [])"
  have rd: "\<forall>f \<in> set files. rf f = Inr (content f)"
    using filesLoop_Inr_readable [OF assms] by (auto simp: content_def)
  from filesLoop_readable [OF rd, of r ts tid] assms
  have "fst st' = ts @ specFileTasks content (max r 1) tid files" by simp
  with rd show ?thesis by blast
qed

text \<open>What a successful build returns, by source.\<close>

lemma buildTasks_Inr_cases:
  assumes "buildTasks fl env lang = Some (Inr ts)"
  shows "(runCode fl \<noteq> [] \<and> ts = specInstances (runCode fl) ''<code>'' (max (runRepeat fl) 1) 1)
       \<or> (runCode fl = [] \<and> runFiles fl \<noteq> [] \<and>
           (\<exists>content. (\<forall>f \<in> set (runFiles fl). readFile env f = Inr (content f))
              \<and> ts = specFileTasks content (max (runRepeat fl) 1) 1 (runFiles fl)))
       \<or> (runCode fl = [] \<and> runFiles fl = [] \<and>
           (ts = [] \<or> (\<exists>c src. c \<noteq> [] \<and> ts = specInstances c src (max (runRepeat fl) 1) 1)))"
proof (cases "runCode fl \<noteq> []")
  case True
  with assms show ?thesis
    by (auto simp: buildTasks_def repeatLoop_spec)
next
  case noCode: False
  show ?thesis
  proof (cases "runFiles fl \<noteq> []")
    case True
    with noCode assms obtain st' where
      fl: "filesLoop (readFile env) (runRepeat fl) (runFiles fl) ([], 1) = Inr st'"
      and ts: "ts = fst st'"
      by (auto simp: buildTasks_def split: sum.splits)
    from filesLoop_Inr_spec [OF fl] ts noCode True show ?thesis by auto
  next
    case False
    with noCode assms show ?thesis
      by (auto simp: buildTasks_def repeatLoop_spec
          split: option.splits bool.splits sum.splits if_splits)
  qed
qed







text \<open>
  Claim C8. For every repeat count \<open>r \<ge> 1\<close> and every source, the tasks of a successful build
  carry the ids \<open>1, 2, 3, \<dots>\<close> in list order. Literal code yields \<open>r\<close> tasks, task \<open>i\<close> (from 0)
  being repetition \<open>i + 1\<close> of \<open>r\<close>. A list of \<open>k\<close> readable files yields \<open>k * r\<close> tasks ordered by
  file first and repetition second: the task at position \<open>i\<close> belongs to file \<open>i div r\<close>, is
  repetition \<open>i mod r + 1\<close> and has \<open>totalInst = r\<close>.
\<close>

theorem buildTasks_ids_and_order:
  assumes "1 \<le> runRepeat fl"
  shows "(\<forall>ts. buildTasks fl env lang = Some (Inr ts) \<longrightarrow>
            (\<forall>i < length ts. id' (ts ! i) = int i + 1))
    \<and> (runCode fl \<noteq> [] \<longrightarrow>
         (\<exists>ts. buildTasks fl env lang = Some (Inr ts) \<and> length ts = nat (runRepeat fl)
            \<and> (\<forall>i < length ts. ts ! i =
                  \<lparr>id' = int i + 1, code = runCode fl, source = ''<code>'',
                   instanceNo = int i + 1, totalInst = runRepeat fl\<rparr>)))
    \<and> (runCode fl = [] \<and> runFiles fl \<noteq> []
          \<and> (\<forall>f \<in> set (runFiles fl). readFile env f = Inr (content f)) \<longrightarrow>
         (\<exists>ts. buildTasks fl env lang = Some (Inr ts)
            \<and> length ts = length (runFiles fl) * nat (runRepeat fl)
            \<and> (\<forall>i < length ts. ts ! i =
                  \<lparr>id' = int i + 1,
                   code = content (runFiles fl ! (i div nat (runRepeat fl))),
                   source = runFiles fl ! (i div nat (runRepeat fl)),
                   instanceNo = int (i mod nat (runRepeat fl)) + 1,
                   totalInst = runRepeat fl\<rparr>)))"
proof -
  from assms have m: "max (runRepeat fl) 1 = runRepeat fl" by simp
  have ids: "\<forall>i < length ts. id' (ts ! i) = int i + 1"
    if b: "buildTasks fl env lang = Some (Inr ts)" for ts
    using buildTasks_Inr_cases [OF b] unfolding m
  proof (elim disjE conjE exE)
    assume "ts = specInstances (runCode fl) ''<code>'' (runRepeat fl) 1"
    then show ?thesis by (simp add: nth_specInstances)
  next
    fix content
    assume "ts = specFileTasks content (runRepeat fl) 1 (runFiles fl)"
    then show ?thesis
      using assms by (simp add: length_specFileTasks nth_specFileTasks)
  next
    assume "ts = []"
    then show ?thesis by simp
  next
    fix c src
    assume "ts = specInstances c src (runRepeat fl) 1"
    then show ?thesis by (simp add: nth_specInstances)
  qed
  have lit: "\<exists>ts. buildTasks fl env lang = Some (Inr ts) \<and> length ts = nat (runRepeat fl)
            \<and> (\<forall>i < length ts. ts ! i =
                  \<lparr>id' = int i + 1, code = runCode fl, source = ''<code>'',
                   instanceNo = int i + 1, totalInst = runRepeat fl\<rparr>)"
    if "runCode fl \<noteq> []"
    using that by (simp add: buildTasks_def repeatLoop_spec m nth_specInstances)
  have files: "\<exists>ts. buildTasks fl env lang = Some (Inr ts)
            \<and> length ts = length (runFiles fl) * nat (runRepeat fl)
            \<and> (\<forall>i < length ts. ts ! i =
                  \<lparr>id' = int i + 1,
                   code = content (runFiles fl ! (i div nat (runRepeat fl))),
                   source = runFiles fl ! (i div nat (runRepeat fl)),
                   instanceNo = int (i mod nat (runRepeat fl)) + 1,
                   totalInst = runRepeat fl\<rparr>)"
    if nc: "runCode fl = []" and nf: "runFiles fl \<noteq> []"
      and rd: "\<forall>f \<in> set (runFiles fl). readFile env f = Inr (content f)"
  proof -
    have "buildTasks fl env lang =
        Some (Inr (specFileTasks content (runRepeat fl) 1 (runFiles fl)))"
      using nc nf filesLoop_readable [OF rd, of "runRepeat fl" "[]" 1]
      by (simp add: buildTasks_def m)
    then show ?thesis
      using assms by (simp add: length_specFileTasks nth_specFileTasks)
  qed
  from ids lit files show ?thesis by blast
qed

text \<open>The claim at three files and repeat count 2: six tasks.\<close>

theorem buildTasks_ids_and_order_witness:
  "1 \<le> runRepeat (defaultFlags\<lparr>runFiles := [''a.py'', ''b.py'', ''c.py''], runRepeat := 2\<rparr>)
   \<and> (\<exists>ts. buildTasks (defaultFlags\<lparr>runFiles := [''a.py'', ''b.py'', ''c.py''], runRepeat := 2\<rparr>)
               plainBuildEnv ''python'' = Some (Inr ts)
          \<and> length ts = 6
          \<and> ts ! 0 = \<lparr>id' = 1, code = ''# a.py'', source = ''a.py'', instanceNo = 1, totalInst = 2\<rparr>
          \<and> ts ! 1 = \<lparr>id' = 2, code = ''# a.py'', source = ''a.py'', instanceNo = 2, totalInst = 2\<rparr>
          \<and> ts ! 2 = \<lparr>id' = 3, code = ''# b.py'', source = ''b.py'', instanceNo = 1, totalInst = 2\<rparr>
          \<and> ts ! 5 = \<lparr>id' = 6, code = ''# c.py'', source = ''c.py'', instanceNo = 2, totalInst = 2\<rparr>)"
proof -
  let ?fl = "defaultFlags\<lparr>runFiles := [''a.py'', ''b.py'', ''c.py''], runRepeat := 2\<rparr>"
  have r: "1 \<le> runRepeat ?fl" by (simp add: defaultFlags_def)
  have pre: "runCode ?fl = [] \<and> runFiles ?fl \<noteq> []
      \<and> (\<forall>f \<in> set (runFiles ?fl). readFile plainBuildEnv f = Inr (''# '' @ f))"
    by (simp add: defaultFlags_def plainBuildEnv_def)
  from buildTasks_ids_and_order [OF r, of plainBuildEnv "''python''" "\<lambda>f. ''# '' @ f"] pre
  obtain ts where b: "buildTasks ?fl plainBuildEnv ''python'' = Some (Inr ts)"
    and len: "length ts = length (runFiles ?fl) * nat (runRepeat ?fl)"
    and nth: "\<forall>i < length ts. ts ! i =
                  \<lparr>id' = int i + 1,
                   code = ''# '' @ (runFiles ?fl ! (i div nat (runRepeat ?fl))),
                   source = runFiles ?fl ! (i div nat (runRepeat ?fl)),
                   instanceNo = int (i mod nat (runRepeat ?fl)) + 1,
                   totalInst = runRepeat ?fl\<rparr>"
    by blast
  have l6: "length ts = 6" using len by (simp add: defaultFlags_def)
  have "ts ! 0 = \<lparr>id' = 1, code = ''# a.py'', source = ''a.py'', instanceNo = 1, totalInst = 2\<rparr>"
    "ts ! 1 = \<lparr>id' = 2, code = ''# a.py'', source = ''a.py'', instanceNo = 2, totalInst = 2\<rparr>"
    "ts ! 2 = \<lparr>id' = 3, code = ''# b.py'', source = ''b.py'', instanceNo = 1, totalInst = 2\<rparr>"
    "ts ! 5 = \<lparr>id' = 6, code = ''# c.py'', source = ''c.py'', instanceNo = 2, totalInst = 2\<rparr>"
    using nth l6 by (simp_all add: defaultFlags_def)
  with r b l6 show ?thesis by blast
qed





section \<open>Properties of the aggregator\<close>

lemma countIter_spec:
  "countIter r (s, f) = (if specFailed r then (s, f + 1) else (s + 1, f))"
  by (cases "result r") (auto simp: countIter_def specFailed_def)

lemma fold_countIter:
  "fold countIter rs (s, f) =
     (s + int (length (filter (\<lambda>r. \<not> specFailed r) rs)),
      f + int (length (filter specFailed rs)))"
  by (induction rs arbitrary: s f) (simp_all add: countIter_spec)

lemma rowIter_counts:
  "snd (rowIter rs i (rows, s, f)) = countIter (rs ! i) (s, f)"
  by (simp add: rowIter_def countIter_def Let_def split: option.splits)

lemma fold_rowIter_counts:
  "k \<le> length rs \<Longrightarrow>
   snd (fold (rowIter rs) [0..<k] (rows, s, f)) =
     (s + int (length (filter (\<lambda>r. \<not> specFailed r) (take k rs))),
      f + int (length (filter specFailed (take k rs))))"
proof (induction k)
  case 0
  show ?case by simp
next
  case (Suc k)
  then have k: "k < length rs" and le: "k \<le> length rs" by simp_all
  obtain rows' where st:
    "fold (rowIter rs) [0..<k] (rows, s, f) =
       (rows', s + int (length (filter (\<lambda>r. \<not> specFailed r) (take k rs))),
        f + int (length (filter specFailed (take k rs))))"
    using Suc.IH [OF le] by (cases "fold (rowIter rs) [0..<k] (rows, s, f)") auto
  show ?case
    using k by (simp add: st rowIter_counts countIter_spec take_Suc_conv_app_nth)
qed

lemma printMultiTaskResults_summary:
  "mo_summary (printMultiTaskResults fl env rs) =
     \<lparr>Total = int (length rs),
      Success = int (length (filter (\<lambda>r. \<not> specFailed r) rs)),
      Failed = int (length (filter specFailed rs))\<rparr>"
proof -
  obtain rows where st: "fold (rowIter rs) [0..<length rs]
                      (replicate (length rs) zeroOutTaskResult, 0, 0) =
       (rows, int (length (filter (\<lambda>r. \<not> specFailed r) rs)),
        int (length (filter specFailed rs)))"
    using fold_rowIter_counts [of "length rs" rs "replicate (length rs) zeroOutTaskResult" 0 0]
    by (cases "fold (rowIter rs) [0..<length rs]
                      (replicate (length rs) zeroOutTaskResult, 0, 0)") auto
  show ?thesis
    by (simp add: printMultiTaskResults_def fold_countIter st Let_def split: option.splits)
qed

lemma printMultiTaskResults_outcome:
  "mo_outcome (printMultiTaskResults fl env rs) =
     (if runStream fl \<or> (\<not> formatterIsJSON env \<and> runParallel fl) then
        exitByFailed (int (length (filter specFailed rs))) (length rs)
      else case printResult env of
             Some e \<Rightarrow> Return (Some e)
           | None \<Rightarrow> exitByFailed (int (length (filter specFailed rs))) (length rs))"
proof -
  obtain rows where st: "fold (rowIter rs) [0..<length rs]
                      (replicate (length rs) zeroOutTaskResult, 0, 0) =
       (rows, int (length (filter (\<lambda>r. \<not> specFailed r) rs)),
        int (length (filter specFailed rs)))"
    using fold_rowIter_counts [of "length rs" rs "replicate (length rs) zeroOutTaskResult" 0 0]
    by (cases "fold (rowIter rs) [0..<length rs]
                      (replicate (length rs) zeroOutTaskResult, 0, 0)") auto
  show ?thesis
    by (simp add: printMultiTaskResults_def fold_countIter st Let_def split: option.splits)
qed

lemma count_partition:
  "length (filter (\<lambda>r. \<not> P r) rs) + length (filter P rs) = length rs"
  by (induction rs) simp_all

text \<open>
  Claim C3. In every mode the aggregator's summary counts as failed exactly the results
  whose error field is set or whose execution result is present and carries an execution
  error; it counts all others as succeeded, and the two counts add up to the total, the
  number of results. Both counting loops decide each single result by that condition.
\<close>

theorem aggregator_counts:
  "Failed (mo_summary (printMultiTaskResults fl env rs)) = int (length (filter specFailed rs))
   \<and> Success (mo_summary (printMultiTaskResults fl env rs))
       = int (length (filter (\<lambda>r. \<not> specFailed r) rs))
   \<and> Total (mo_summary (printMultiTaskResults fl env rs)) = int (length rs)
   \<and> Success (mo_summary (printMultiTaskResults fl env rs))
       + Failed (mo_summary (printMultiTaskResults fl env rs))
       = Total (mo_summary (printMultiTaskResults fl env rs))
   \<and> countIter r (s, f) = (if specFailed r then (s, f + 1) else (s + 1, f))
   \<and> snd (rowIter rs i (rows, s, f)) =
       (if specFailed (rs ! i) then (s, f + 1) else (s + 1, f))"
  using count_partition [of specFailed rs]
  by (simp add: printMultiTaskResults_summary countIter_spec rowIter_counts)

text \<open>
  In buffered mode a formatter that fails makes the function return that error; no exit
  code is computed then.
\<close>

lemma printMultiTaskResults_print_error:
  "\<not> runStream fl \<Longrightarrow> formatterIsJSON env \<or> \<not> runParallel fl \<Longrightarrow> printResult env = Some e
   \<Longrightarrow> mo_outcome (printMultiTaskResults fl env rs) = Return (Some e)"
  by (auto simp: printMultiTaskResults_outcome)

text \<open>
  Claim C1, as stated, fails in buffered mode: when the formatter returns an error,
  \<open>printMultiTaskResults\<close> returns that error before it reaches the exit block, and the
  process exits with 1 both when no task failed and when every task failed.
\<close>

theorem exit_code_law_counterexample:
  "mo_outcome (printMultiTaskResults defaultFlags printFailEnv [okResult, okResult])
     = Return (Some (Err ''write failed''))
   \<and> length (filter specFailed [okResult, okResult]) = 0
   \<and> processExit (mo_outcome (printMultiTaskResults defaultFlags printFailEnv
         [okResult, okResult])) = 1
   \<and> mo_outcome (printMultiTaskResults defaultFlags printFailEnv
         [createFailedResult, execErrorResult]) = Return (Some (Err ''write failed''))
   \<and> length (filter specFailed [createFailedResult, execErrorResult]) = 2
   \<and> processExit (mo_outcome (printMultiTaskResults defaultFlags printFailEnv
         [createFailedResult, execErrorResult])) = 1"
proof -
  have m: "\<not> runStream defaultFlags" "formatterIsJSON printFailEnv \<or> \<not> runParallel defaultFlags"
    "printResult printFailEnv = Some (Err ''write failed'')"
    by (simp_all add: defaultFlags_def printFailEnv_def plainRunEnv_def)
  have f: "specFailed createFailedResult" "specFailed execErrorResult" "\<not> specFailed okResult"
    by (simp_all add: specFailed_def okResult_def createFailedResult_def execErrorResult_def
        okExecution_def raisedExecution_def)
  show ?thesis
    using f by (simp add: printMultiTaskResults_print_error [OF m])
qed

text \<open>
  Claim C1, amended. In streaming mode and in parallel text mode always, and in buffered
  mode when the formatter has printed the results without an error,
  \<open>printMultiTaskResults\<close> ends the process with 0 (by returning nil) when no task failed,
  with \<open>os.Exit(1)\<close> when some but not all tasks failed, and with \<open>os.Exit(2)\<close> when every task
  of a non-empty results list failed. In buffered mode with a formatter that returns an
  error, it returns that error and the process exits with 1, whatever the number of failed
  tasks.
\<close>

theorem exit_code_law:
  "(runStream fl \<or> (\<not> formatterIsJSON env \<and> runParallel fl) \<or> printResult env = None \<longrightarrow>
      (length (filter specFailed rs) = 0 \<longrightarrow>
            mo_outcome (printMultiTaskResults fl env rs) = Return None
            \<and> processExit (mo_outcome (printMultiTaskResults fl env rs)) = 0)
    \<and> (0 < length (filter specFailed rs) \<and> length (filter specFailed rs) < length rs \<longrightarrow>
            mo_outcome (printMultiTaskResults fl env rs) = Exit 1
            \<and> processExit (mo_outcome (printMultiTaskResults fl env rs)) = 1)
    \<and> (0 < length rs \<and> length (filter specFailed rs) = length rs \<longrightarrow>
            mo_outcome (printMultiTaskResults fl env rs) = Exit 2
            \<and> processExit (mo_outcome (printMultiTaskResults fl env rs)) = 2))
   \<and> (\<not> runStream fl \<and> (formatterIsJSON env \<or> \<not> runParallel fl) \<and> printResult env = Some e \<longrightarrow>
        mo_outcome (printMultiTaskResults fl env rs) = Return (Some e)
        \<and> processExit (mo_outcome (printMultiTaskResults fl env rs)) = 1)"
  by (auto simp: printMultiTaskResults_outcome exitByFailed_def split: option.splits)

text \<open>The counts for one success, one failed creation and one execution error.\<close>

theorem aggregator_counts_witness:
  "Failed (mo_summary (printMultiTaskResults defaultFlags plainRunEnv
             [okResult, createFailedResult, execErrorResult])) = 2
   \<and> Success (mo_summary (printMultiTaskResults defaultFlags plainRunEnv
             [okResult, createFailedResult, execErrorResult])) = 1
   \<and> Total (mo_summary (printMultiTaskResults defaultFlags plainRunEnv
             [okResult, createFailedResult, execErrorResult])) = 3"
  using aggregator_counts [of defaultFlags plainRunEnv
      "[okResult, createFailedResult, execErrorResult]"]
  by (simp add: specFailed_def okResult_def createFailedResult_def execErrorResult_def
      okExecution_def raisedExecution_def)

text \<open>
  The three exit codes in buffered mode (no failure, two of three failed, all failed), the
  partial failure again in streaming mode and in parallel text mode, total failure in
  streaming mode with a failing formatter, and the returned error in buffered mode.
\<close>

theorem exit_code_law_witness:
  "printResult plainRunEnv = None
   \<and> mo_outcome (printMultiTaskResults defaultFlags plainRunEnv [okResult, okResult])
       = Return None
   \<and> mo_outcome (printMultiTaskResults defaultFlags plainRunEnv
         [okResult, createFailedResult, execErrorResult]) = Exit 1
   \<and> mo_outcome (printMultiTaskResults defaultFlags plainRunEnv
         [createFailedResult, execErrorResult]) = Exit 2
   \<and> mo_outcome (printMultiTaskResults (defaultFlags\<lparr>runStream := True\<rparr>) plainRunEnv
         [okResult, createFailedResult, execErrorResult]) = Exit 1
   \<and> mo_outcome (printMultiTaskResults (defaultFlags\<lparr>runParallel := True\<rparr>) plainRunEnv
         [okResult, createFailedResult, execErrorResult]) = Exit 1
   \<and> mo_outcome (printMultiTaskResults (defaultFlags\<lparr>runStream := True\<rparr>) printFailEnv
         [createFailedResult, execErrorResult]) = Exit 2
   \<and> printResult printFailEnv = Some (Err ''write failed'')
   \<and> mo_outcome (printMultiTaskResults defaultFlags printFailEnv
         [okResult, createFailedResult, execErrorResult]) = Return (Some (Err ''write failed''))"
proof -
  have p: "printResult plainRunEnv = None" "\<not> formatterIsJSON plainRunEnv"
    by (simp_all add: plainRunEnv_def)
  have q: "printResult printFailEnv = Some (Err ''write failed'')"
    "\<not> formatterIsJSON printFailEnv"
    by (simp_all add: printFailEnv_def plainRunEnv_def)
  have d: "\<not> runStream defaultFlags" "\<not> runParallel defaultFlags"
    by (simp_all add: defaultFlags_def)
  have f: "specFailed createFailedResult" "specFailed execErrorResult" "\<not> specFailed okResult"
    by (simp_all add: specFailed_def okResult_def createFailedResult_def execErrorResult_def
        okExecution_def raisedExecution_def)
  from exit_code_law [where fl = defaultFlags and env = plainRunEnv
      and rs = "[okResult, okResult]"] p f
  have a: "mo_outcome (printMultiTaskResults defaultFlags plainRunEnv [okResult, okResult])
      = Return None" by simp
  from exit_code_law [where env = plainRunEnv
      and rs = "[okResult, createFailedResult, execErrorResult]"] p f
  have b: "mo_outcome (printMultiTaskResults fl plainRunEnv
         [okResult, createFailedResult, execErrorResult]) = Exit 1" for fl :: runFlags by simp
  from exit_code_law [where fl = defaultFlags and env = plainRunEnv
      and rs = "[createFailedResult, execErrorResult]"] p f
  have c: "mo_outcome (printMultiTaskResults defaultFlags plainRunEnv
         [createFailedResult, execErrorResult]) = Exit 2" by simp
  from exit_code_law [where fl = "defaultFlags\<lparr>runStream := True\<rparr>" and env = printFailEnv
      and rs = "[createFailedResult, execErrorResult]"] f
  have s: "mo_outcome (printMultiTaskResults (defaultFlags\<lparr>runStream := True\<rparr>) printFailEnv
         [createFailedResult, execErrorResult]) = Exit 2" by simp
  from exit_code_law [where fl = defaultFlags and env = printFailEnv
      and e = "Err ''write failed''"
      and rs = "[okResult, createFailedResult, execErrorResult]"] q d
  have e: "mo_outcome (printMultiTaskResults defaultFlags printFailEnv
         [okResult, createFailedResult, execErrorResult]) = Return (Some (Err ''write failed''))"
    by simp
  from a b c s e p q show ?thesis by simp
qed

section \<open>Properties of the sequential runner\<close>

lemma fold_update_upt:
  "k \<le> length xs \<Longrightarrow>
   fold (\<lambda>i rs. rs[i := g i]) [0..<k] xs = map g [0..<k] @ drop k xs"
proof (induction k)
  case 0
  show ?case by simp
next
  case (Suc k)
  then have k: "k < length xs" by simp
  have "(map g [0..<k] @ drop k xs)[k := g k] = map g [0..<k] @ (drop k xs)[0 := g k]"
    by (simp add: list_update_append)
  also have "\<dots> = map g [0..<k] @ g k # drop (Suc k) xs"
    using k by (simp add: Cons_nth_drop_Suc [symmetric])
  finally show ?case
    using Suc by simp
qed

lemma failAll_eq:
  "failAll e tasks (replicate (length tasks) zeroTaskResult) =
     map (\<lambda>t. \<lparr>task = t, result = None, err = Some e,
                 createDuration = 0, execDuration = 0, totalDuration = 0\<rparr>) tasks"
proof -
  have "failAll e tasks (replicate (length tasks) zeroTaskResult) =
      map (\<lambda>i. zeroTaskResult\<lparr>task := tasks ! i, err := Some e\<rparr>) [0..<length tasks]"
    unfolding failAll_def
    using fold_update_upt [of "length tasks" "replicate (length tasks) zeroTaskResult"
        "\<lambda>i. zeroTaskResult\<lparr>task := tasks ! i, err := Some e\<rparr>"]
    by simp
  also have "\<dots> = map (\<lambda>t. zeroTaskResult\<lparr>task := t, err := Some e\<rparr>)
                     (map (\<lambda>i. tasks ! i) [0..<length tasks])"
    by (simp add: comp_def)
  also have "\<dots> = map (\<lambda>t. zeroTaskResult\<lparr>task := t, err := Some e\<rparr>) tasks"
    by (simp only: map_nth)
  finally show ?thesis
    by (simp add: zeroTaskResult_def)
qed

lemma seqIter_eq:
  "seqIter env sb d tasks i (rs, map code (take i tasks)) =
     (rs[i := seqResult env sb d tasks i], map code (take i tasks) @ [code (tasks ! i)])"
  by (simp add: seqIter_def seqResult_def Let_def split: prod.splits)

lemma fold_seqIter:
  "k \<le> length tasks \<Longrightarrow> length rs = length tasks \<Longrightarrow>
   fold (seqIter env sb d tasks) [0..<k] (rs, []) =
     (map (seqResult env sb d tasks) [0..<k] @ drop k rs, map code (take k tasks))"
proof (induction k)
  case 0
  show ?case by simp
next
  case (Suc k)
  then have k: "k < length tasks" and kr: "k < length rs" by simp_all
  have "(map (seqResult env sb d tasks) [0..<k] @ drop k rs)[k := seqResult env sb d tasks k]
      = map (seqResult env sb d tasks) [0..<k] @ (drop k rs)[0 := seqResult env sb d tasks k]"
    by (simp add: list_update_append)
  also have "\<dots> = map (seqResult env sb d tasks) [0..<k]
                   @ seqResult env sb d tasks k # drop (Suc k) rs"
    using kr by (simp add: Cons_nth_drop_Suc [symmetric])
  finally have upd:
    "(map (seqResult env sb d tasks) [0..<k] @ drop k rs)[k := seqResult env sb d tasks k]
      = map (seqResult env sb d tasks) [0..<Suc k] @ drop (Suc k) rs"
    by simp
  have "fold (seqIter env sb d tasks) [0..<Suc k] (rs, []) =
      seqIter env sb d tasks k
        (map (seqResult env sb d tasks) [0..<k] @ drop k rs, map code (take k tasks))"
    using Suc by simp
  also have "\<dots> = (map (seqResult env sb d tasks) [0..<Suc k] @ drop (Suc k) rs,
                    map code (take k tasks) @ [code (tasks ! k)])"
    unfolding seqIter_eq upd ..
  finally show ?case
    using k by (simp add: take_Suc_conv_app_nth)
qed

lemma runTasksSequential_eq:
  "runTasksSequential fl env tasks =
     (if runInstance fl \<noteq> [] then
        (case connectSandbox env (runInstance fl) of
           Inl e \<Rightarrow>
             (map (\<lambda>t. \<lparr>task = t, result = None,
                         err = Some (Wrap ''failed to connect to instance: '' e),
                         createDuration = 0, execDuration = 0, totalDuration = 0\<rparr>) tasks, [])
         | Inr sb \<Rightarrow> (map (seqResult env sb 0 tasks) [0..<length tasks], map code tasks))
      else
        (case createSandbox env 0 of
           Inl e \<Rightarrow>
             (map (\<lambda>t. \<lparr>task = t, result = None,
                         err = Some (Wrap ''failed to create sandbox: '' e),
                         createDuration = 0, execDuration = 0, totalDuration = 0\<rparr>) tasks, [])
         | Inr sb \<Rightarrow>
             (map (seqResult env sb (createTime env 0) tasks) [0..<length tasks],
              map code tasks)))"
  by (simp add: runTasksSequential_def failAll_eq fold_seqIter Let_def split: sum.splits)

text \<open>
  Claim C5. In sequential mode, when the one sandbox creation (or the connection to the
  given instance) fails with an error \<open>e\<close>, \<open>runTasksSequential\<close> returns for every task, in
  order, a result that carries the same error, \<open>e\<close> wrapped behind a fixed prefix, with no
  execution result and zero creation, execution and total durations; and no code was
  passed to \<open>RunCode\<close>.
\<close>

theorem sequential_acquisition_failure:
  assumes "(runInstance fl = [] \<and> createSandbox env 0 = Inl e
              \<and> w = Wrap ''failed to create sandbox: '' e)
         \<or> (runInstance fl \<noteq> [] \<and> connectSandbox env (runInstance fl) = Inl e
              \<and> w = Wrap ''failed to connect to instance: '' e)"
  shows "runTasksSequential fl env tasks =
           (map (\<lambda>t. \<lparr>task = t, result = None, err = Some w,
                       createDuration = 0, execDuration = 0, totalDuration = 0\<rparr>) tasks,
            [])"
  using assms by (auto simp: runTasksSequential_eq)

text \<open>The claim for three tasks when the creation fails for lack of quota.\<close>

theorem sequential_acquisition_failure_witness:
  "runInstance defaultFlags = [] \<and> createSandbox noQuotaEnv 0 = Inl (Err ''quota exceeded'')
   \<and> runTasksSequential defaultFlags noQuotaEnv threeTasks =
       ([\<lparr>task = threeTasks ! 0, result = None,
          err = Some (Wrap ''failed to create sandbox: '' (Err ''quota exceeded'')),
          createDuration = 0, execDuration = 0, totalDuration = 0\<rparr>,
         \<lparr>task = threeTasks ! 1, result = None,
          err = Some (Wrap ''failed to create sandbox: '' (Err ''quota exceeded'')),
          createDuration = 0, execDuration = 0, totalDuration = 0\<rparr>,
         \<lparr>task = threeTasks ! 2, result = None,
          err = Some (Wrap ''failed to create sandbox: '' (Err ''quota exceeded'')),
          createDuration = 0, execDuration = 0, totalDuration = 0\<rparr>],
        [])"
proof -
  have h: "runInstance defaultFlags = [] \<and> createSandbox noQuotaEnv 0 = Inl (Err ''quota exceeded'')"
    by (simp add: defaultFlags_def noQuotaEnv_def noQuota_def)
  then have "(runInstance defaultFlags = [] \<and> createSandbox noQuotaEnv 0 = Inl (Err ''quota exceeded'')
              \<and> Wrap ''failed to create sandbox: '' (Err ''quota exceeded'')
                  = Wrap ''failed to create sandbox: '' (Err ''quota exceeded''))
         \<or> (runInstance defaultFlags \<noteq> []
              \<and> connectSandbox noQuotaEnv (runInstance defaultFlags) = Inl (Err ''quota exceeded'')
              \<and> Wrap ''failed to create sandbox: '' (Err ''quota exceeded'')
                  = Wrap ''failed to connect to instance: '' (Err ''quota exceeded''))"
    by simp
  from sequential_acquisition_failure [OF this, of threeTasks] h
  show ?thesis by (simp add: threeTasks_def)
qed

text \<open>A duration that is not negative and not positive is zero.\<close>

lemma sless_zero_cases: "0 \<le>s (d :: duration) \<Longrightarrow> \<not> 0 <s d \<Longrightarrow> d = 0"
  by (auto simp: word_sless_eq)

text \<open>
  Claim C9. In sequential mode with a freshly created sandbox and at least one task, the
  first result has the measured creation time as its \<open>createDuration\<close> and creation time
  plus execution time as its \<open>totalDuration\<close>; every later result has \<open>createDuration\<close> zero
  and \<open>totalDuration\<close> equal to its execution time. When an existing instance is reused,
  every result, the first included, has \<open>createDuration\<close> zero and \<open>totalDuration\<close> equal to its
  execution time. The measured creation time is not negative (\<open>time.Since\<close> reads the
  monotonic clock); the sum is Go's addition on 64-bit durations.
\<close>

theorem sequential_creation_time:
  "(runInstance fl = [] \<and> createSandbox env 0 = Inr sb \<and> 0 \<le>s createTime env 0
      \<and> tasks \<noteq> [] \<longrightarrow>
      createDuration (fst (runTasksSequential fl env tasks) ! 0) = createTime env 0
      \<and> execDuration (fst (runTasksSequential fl env tasks) ! 0) = execTime env 0
      \<and> totalDuration (fst (runTasksSequential fl env tasks) ! 0)
          = createTime env 0 + execTime env 0
      \<and> (\<forall>i. 0 < i \<and> i < length tasks \<longrightarrow>
            createDuration (fst (runTasksSequential fl env tasks) ! i) = 0
            \<and> execDuration (fst (runTasksSequential fl env tasks) ! i) = execTime env i
            \<and> totalDuration (fst (runTasksSequential fl env tasks) ! i) = execTime env i))
   \<and> (runInstance fl \<noteq> [] \<and> connectSandbox env (runInstance fl) = Inr sb \<longrightarrow>
        (\<forall>i < length tasks.
            createDuration (fst (runTasksSequential fl env tasks) ! i) = 0
            \<and> execDuration (fst (runTasksSequential fl env tasks) ! i) = execTime env i
            \<and> totalDuration (fst (runTasksSequential fl env tasks) ! i) = execTime env i))"
proof (intro conjI impI)
  assume a: "runInstance fl = [] \<and> createSandbox env 0 = Inr sb \<and> 0 \<le>s createTime env 0
      \<and> tasks \<noteq> []"
  then have rs: "fst (runTasksSequential fl env tasks) =
      map (seqResult env sb (createTime env 0) tasks) [0..<length tasks]"
    by (simp add: runTasksSequential_eq)
  from a have pos: "0 < length tasks" by simp
  show "createDuration (fst (runTasksSequential fl env tasks) ! 0) = createTime env 0"
    using a pos sless_zero_cases [of "createTime env 0"]
    by (auto simp: rs seqResult_def)
  show "execDuration (fst (runTasksSequential fl env tasks) ! 0) = execTime env 0"
    using pos by (simp add: rs seqResult_def)
  show "totalDuration (fst (runTasksSequential fl env tasks) ! 0)
          = createTime env 0 + execTime env 0"
    using a pos sless_zero_cases [of "createTime env 0"]
    by (auto simp: rs seqResult_def)
  show "\<forall>i. 0 < i \<and> i < length tasks \<longrightarrow>
            createDuration (fst (runTasksSequential fl env tasks) ! i) = 0
            \<and> execDuration (fst (runTasksSequential fl env tasks) ! i) = execTime env i
            \<and> totalDuration (fst (runTasksSequential fl env tasks) ! i) = execTime env i"
    by (simp add: rs seqResult_def)
next
  assume a: "runInstance fl \<noteq> [] \<and> connectSandbox env (runInstance fl) = Inr sb"
  then have rs: "fst (runTasksSequential fl env tasks) =
      map (seqResult env sb 0 tasks) [0..<length tasks]"
    by (simp add: runTasksSequential_eq)
  show "\<forall>i < length tasks.
            createDuration (fst (runTasksSequential fl env tasks) ! i) = 0
            \<and> execDuration (fst (runTasksSequential fl env tasks) ! i) = execTime env i
            \<and> totalDuration (fst (runTasksSequential fl env tasks) ! i) = execTime env i"
    by (simp add: rs seqResult_def)
qed

text \<open>The claim for three tasks, a creation of 5 ns and executions of 7 ns.\<close>

theorem sequential_creation_time_witness:
  "runInstance defaultFlags = [] \<and> createSandbox plainRunEnv 0 = Inr \<lparr>SandboxId = ''sbx''\<rparr>
   \<and> 0 \<le>s createTime plainRunEnv 0 \<and> threeTasks \<noteq> []
   \<and> createDuration (fst (runTasksSequential defaultFlags plainRunEnv threeTasks) ! 0) = 5
   \<and> totalDuration (fst (runTasksSequential defaultFlags plainRunEnv threeTasks) ! 0) = 12
   \<and> createDuration (fst (runTasksSequential defaultFlags plainRunEnv threeTasks) ! 1) = 0
   \<and> totalDuration (fst (runTasksSequential defaultFlags plainRunEnv threeTasks) ! 1) = 7
   \<and> createDuration (fst (runTasksSequential defaultFlags plainRunEnv threeTasks) ! 2) = 0
   \<and> totalDuration (fst (runTasksSequential defaultFlags plainRunEnv threeTasks) ! 2) = 7"
proof -
  have h: "runInstance defaultFlags = [] \<and> createSandbox plainRunEnv 0 = Inr \<lparr>SandboxId = ''sbx''\<rparr>
     \<and> 0 \<le>s createTime plainRunEnv 0 \<and> threeTasks \<noteq> []"
    by (simp add: defaultFlags_def plainRunEnv_def threeTasks_def word_sle_eq)
  have l: "length threeTasks = 3" by (simp add: threeTasks_def)
  have v: "createTime plainRunEnv 0 = 5" "execTime plainRunEnv i = 7" for i
    by (simp_all add: plainRunEnv_def)
  from sequential_creation_time [of defaultFlags plainRunEnv "\<lparr>SandboxId = ''sbx''\<rparr>" threeTasks] h
  have first: "createDuration (fst (runTasksSequential defaultFlags plainRunEnv threeTasks) ! 0) = 5
      \<and> totalDuration (fst (runTasksSequential defaultFlags plainRunEnv threeTasks) ! 0) = 12"
    and later: "\<forall>i. 0 < i \<and> i < 3 \<longrightarrow>
            createDuration (fst (runTasksSequential defaultFlags plainRunEnv threeTasks) ! i) = 0
            \<and> totalDuration (fst (runTasksSequential defaultFlags plainRunEnv threeTasks) ! i) = 7"
    unfolding l v by simp_all
  from later have "createDuration (fst (runTasksSequential defaultFlags plainRunEnv threeTasks) ! 1) = 0
      \<and> totalDuration (fst (runTasksSequential defaultFlags plainRunEnv threeTasks) ! 1) = 7"
    and "createDuration (fst (runTasksSequential defaultFlags plainRunEnv threeTasks) ! 2) = 0
      \<and> totalDuration (fst (runTasksSequential defaultFlags plainRunEnv threeTasks) ! 2) = 7"
    by simp_all
  with first h show ?thesis by blast
qed

section \<open>Properties of the parallel runner\<close>

lemma filter_update_count:
  "i < length xs \<Longrightarrow>
   length (filter P (xs[i := v])) + (if P (xs ! i) then 1 else 0)
     = length (filter P xs) + (if P v then 1 else 0)"
proof (induction xs arbitrary: i)
  case Nil
  then show ?case by simp
next
  case (Cons x xs)
  then show ?case by (cases i) auto
qed

lemma maxParallel_spec:
  "maxParallel fl tasks = int (specLimit (runMaxParallel fl) (length tasks))"
  by (auto simp: maxParallel_def specLimit_def Let_def min_def)

lemma goStep_index: "goStep fl env tasks i s = Some s' \<Longrightarrow> i < length (pc s)"
  by (auto simp: goStep_def split: if_splits)

text \<open>Every step of a goroutine keeps the invariant.\<close>

lemma goStep_inv:
  assumes inv: "parInv fl env tasks s" and st: "goStep fl env tasks i s = Some s'"
  shows "parInv fl env tasks s'"
proof -
  from st have i: "i < length (pc s)" by (rule goStep_index)
  note I = inv [unfolded parInv_def]
  from I i have it: "i < length tasks" by simp
  show ?thesis
  proof (cases "pc s ! i")
    case Pending
    with st i have lt: "int (sem s) < maxParallel fl tasks"
      and s': "s' = s\<lparr>pc := (pc s)[i := Acquiring], sem := sem s + 1\<rparr>"
      by (auto simp: goStep_def split: if_splits)
    have g: "inGate s' = Suc (inGate s)"
      using filter_update_count [of i "pc s" insideGate Acquiring] i Pending
      by (simp add: s' inGate_def)
    show ?thesis
      unfolding parInv_def using I lt g i Pending
      by (auto simp: s' nth_list_update)
  next
    case Acquiring
    show ?thesis
    proof (cases "createSandbox env i")
      case (Inl e)
      with st i Acquiring have s': "s' = s\<lparr>pc := (pc s)[i := Finishing],
            results := (results s)[i := parResult env tasks i],
            resultChan := (if hasResultChan fl env
                           then resultChan s @ [parResult env tasks i]
                           else resultChan s)\<rparr>"
        by (auto simp: goStep_def parResult_def Let_def)
      have g: "inGate s' = inGate s"
        using filter_update_count [of i "pc s" insideGate Finishing] i Acquiring
        by (simp add: s' inGate_def)
      show ?thesis
        unfolding parInv_def using I g i Acquiring
        by (auto simp: s' nth_list_update)
    next
      case (Inr sb)
      with st i Acquiring have s': "s' = s\<lparr>pc := (pc s)[i := Running sb],
            sandboxes := sandboxes s @ [sb],
            executed := executed s @ [(i, code (tasks ! i))]\<rparr>"
        by (auto simp: goStep_def)
      have g: "inGate s' = inGate s"
        using filter_update_count [of i "pc s" insideGate "Running sb"] i Acquiring
        by (simp add: s' inGate_def)
      show ?thesis
        unfolding parInv_def using I g i Acquiring Inr
        by (auto simp: s' nth_list_update)
    qed
  next
    case (Running sb)
    with I it have cr: "createSandbox env i = Inr sb" by blast
    have r: "(case runCodeResult env sb [] (code (tasks ! i)) of (res, e) \<Rightarrow>
               \<lparr>task = tasks ! i, result = res, err = e,
                createDuration = createTime env i, execDuration = execTime env i,
                totalDuration = totalTime env i\<rparr>) = parResult env tasks i"
      by (simp add: parResult_def cr split: prod.splits)
    from st i Running have s': "s' = s\<lparr>pc := (pc s)[i := Finishing],
            results := (results s)[i := parResult env tasks i],
            resultChan := (if hasResultChan fl env
                           then resultChan s @ [parResult env tasks i]
                           else resultChan s)\<rparr>"
      using r by (auto simp: goStep_def Let_def split: prod.splits)
    have g: "inGate s' = inGate s"
      using filter_update_count [of i "pc s" insideGate Finishing] i Running
      by (simp add: s' inGate_def)
    show ?thesis
      unfolding parInv_def using I g i Running
      by (auto simp: s' nth_list_update)
  next
    case Finishing
    with st i have pos: "0 < sem s"
      and s': "s' = s\<lparr>pc := (pc s)[i := Done], sem := sem s - 1\<rparr>"
      by (auto simp: goStep_def split: if_splits)
    have g: "Suc (inGate s') = inGate s"
      using filter_update_count [of i "pc s" insideGate Done] i Finishing
      by (simp add: s' inGate_def)
    show ?thesis
      unfolding parInv_def using I g i Finishing pos
      by (auto simp: s' nth_list_update)
  next
    case Done
    with st i show ?thesis by (simp add: goStep_def)
  qed
qed

lemma parInv_init: "parInv fl env tasks (initParallel tasks)"
  by (auto simp: parInv_def initParallel_def inGate_def maxParallel_def Let_def)

lemma schedStep_inv: "parInv fl env tasks s \<Longrightarrow> parInv fl env tasks (schedStep fl env tasks i s)"
  by (auto simp: schedStep_def split: option.splits intro: goStep_inv)

lemma fold_schedStep_inv:
  "parInv fl env tasks s \<Longrightarrow> parInv fl env tasks (fold (schedStep fl env tasks) sched s)"
  by (induction sched arbitrary: s) (simp_all add: schedStep_inv)

lemma runSchedule_inv: "parInv fl env tasks (runSchedule fl env tasks sched)"
  unfolding runSchedule_def by (rule fold_schedStep_inv [OF parInv_init])

lemma waitAll_inv: "parInv fl env tasks s \<Longrightarrow> parInv fl env tasks (waitAll fl env tasks s)"
proof (induction fl env tasks s rule: waitAll.induct)
  case (1 fl env tasks s)
  show ?case
  proof (cases "List.find (\<lambda>i. goStep fl env tasks i s \<noteq> None) [0..<length (pc s)]")
    case None
    then show ?thesis using "1.prems" by (simp add: waitAll.simps [of fl env tasks s])
  next
    case (Some i)
    show ?thesis
    proof (cases "goStep fl env tasks i s")
      case None
      then show ?thesis
        using Some "1.prems" by (simp add: waitAll.simps [of fl env tasks s])
    next
      case st: (Some s')
      from "1.IH" [OF Some st goStep_inv [OF "1.prems" st]]
      show ?thesis
        using Some st by (simp add: waitAll.simps [of fl env tasks s])
    qed
  qed
qed

lemma waitAll_stuck:
  "i < length (pc (waitAll fl env tasks s)) \<Longrightarrow> goStep fl env tasks i (waitAll fl env tasks s) = None"
proof (induction fl env tasks s rule: waitAll.induct)
  case (1 fl env tasks s)
  show ?case
  proof (cases "List.find (\<lambda>i. goStep fl env tasks i s \<noteq> None) [0..<length (pc s)]")
    case None
    then have w: "waitAll fl env tasks s = s" by (simp add: waitAll.simps [of fl env tasks s])
    from None have "\<forall>j \<in> set [0..<length (pc s)]. goStep fl env tasks j s = None"
      by (simp add: find_None_iff)
    with "1.prems" show ?thesis by (simp add: w)
  next
    case (Some j)
    then have "goStep fl env tasks j s \<noteq> None"
      by (auto simp: find_Some_iff)
    then obtain s' where st: "goStep fl env tasks j s = Some s'" by blast
    have w: "waitAll fl env tasks s = waitAll fl env tasks s'"
      using Some st by (simp add: waitAll.simps [of fl env tasks s])
    from "1.IH" [OF Some st] "1.prems" show ?thesis
      by (simp add: w)
  qed
qed

lemma inside_can_step:
  assumes inv: "parInv fl env tasks s" and i: "i < length (pc s)"
    and ins: "insideGate (pc s ! i)"
  shows "goStep fl env tasks i s \<noteq> None"
proof -
  have "pc s ! i \<in> set (filter insideGate (pc s))"
    using i ins by simp
  then have "0 < length (filter insideGate (pc s))"
    by (cases "filter insideGate (pc s)") auto
  with inv have pos: "0 < sem s" by (simp add: parInv_def inGate_def)
  show ?thesis
    using i ins pos
    by (cases "pc s ! i") (auto simp: goStep_def Let_def split: sum.splits prod.splits)
qed

lemma maxParallel_pos: "tasks \<noteq> [] \<Longrightarrow> 0 < maxParallel fl tasks"
  by (auto simp: maxParallel_def Let_def)

lemma pending_can_step:
  assumes "i < length (pc s)" and "pc s ! i = Pending" and "sem s = 0" and "tasks \<noteq> []"
  shows "goStep fl env tasks i s \<noteq> None"
proof -
  from maxParallel_pos [OF assms(4), of fl] assms(3)
  have "int (sem s) < maxParallel fl tasks" by simp
  with assms(1,2) show ?thesis
    unfolding goStep_def by simp
qed

text \<open>No deadlock: when no goroutine can move, all are done.\<close>

lemma stuck_all_done:
  assumes inv: "parInv fl env tasks s"
    and stuck: "\<forall>i < length (pc s). goStep fl env tasks i s = None"
  shows "list_all (\<lambda>st. st = Done) (pc s)"
proof -
  have none: "goStep fl env tasks i s = None" if "i < length (pc s)" for i
    using stuck that by simp
  have out: "\<not> insideGate (pc s ! i)" if "i < length (pc s)" for i
  proof
    assume "insideGate (pc s ! i)"
    from inside_can_step [OF inv that this] none [OF that] show False by simp
  qed
  have "\<forall>x \<in> set (pc s). \<not> insideGate x"
  proof
    fix x
    assume "x \<in> set (pc s)"
    then obtain i where "i < length (pc s)" and "pc s ! i = x"
      unfolding in_set_conv_nth by blast
    with out show "\<not> insideGate x" by blast
  qed
  then have "filter insideGate (pc s) = []"
    unfolding filter_empty_conv by blast
  with inv have z: "sem s = 0" by (simp add: parInv_def inGate_def)
  have "pc s ! i = Done" if i: "i < length (pc s)" for i
  proof (cases "pc s ! i")
    case Pending
    from inv i have "tasks \<noteq> []" unfolding parInv_def by auto
    from pending_can_step [OF i Pending z this, of fl env] none [OF i]
    show ?thesis by simp
  next
    case Acquiring
    with out [OF i] show ?thesis by simp
  next
    case (Running sb)
    with out [OF i] show ?thesis by simp
  next
    case Finishing
    with out [OF i] show ?thesis by simp
  next
    case Done
    then show ?thesis .
  qed
  then show ?thesis
    unfolding list_all_length by blast
qed

lemma results_of_done:
  assumes inv: "parInv fl env tasks s" and fin: "list_all (\<lambda>st. st = Done) (pc s)"
  shows "results s = map (parResult env tasks) [0..<length tasks]"
proof (rule nth_equalityI)
  show "length (results s) = length (map (parResult env tasks) [0..<length tasks])"
    using inv by (simp add: parInv_def)
next
  fix i
  assume "i < length (results s)"
  with inv have i: "i < length tasks" and ip: "i < length (pc s)" by (simp_all add: parInv_def)
  from fin ip have "pc s ! i = Done" by (simp add: list_all_length)
  with inv i show "results s ! i = map (parResult env tasks) [0..<length tasks] ! i"
    by (simp add: parInv_def)
qed

lemma runTasksParallel_returns:
  "\<exists>ex. runTasksParallel fl env sched tasks
          = Some (map (parResult env tasks) [0..<length tasks], ex)"
proof -
  let ?s = "waitAll fl env tasks (runSchedule fl env tasks sched)"
  have inv: "parInv fl env tasks ?s"
    by (rule waitAll_inv [OF runSchedule_inv])
  have fin: "list_all (\<lambda>st. st = Done) (pc ?s)"
  proof (rule stuck_all_done [OF inv], intro allI impI)
    fix i
    assume "i < length (pc ?s)"
    then show "goStep fl env tasks i ?s = None" by (rule waitAll_stuck)
  qed
  show ?thesis
    using fin results_of_done [OF inv fin] by (simp add: runTasksParallel_def Let_def)
qed

text \<open>
  The steps taken while waiting are steps of goroutines too, so the state in which
  \<open>wg.Wait()\<close> returns is the state after a longer schedule.
\<close>

lemma waitAll_is_schedule:
  "\<exists>more. waitAll fl env tasks s = fold (schedStep fl env tasks) more s"
proof (induction fl env tasks s rule: waitAll.induct)
  case (1 fl env tasks s)
  show ?case
  proof (cases "List.find (\<lambda>i. goStep fl env tasks i s \<noteq> None) [0..<length (pc s)]")
    case None
    then have "waitAll fl env tasks s = fold (schedStep fl env tasks) [] s"
      by (simp add: waitAll.simps [of fl env tasks s])
    then show ?thesis ..
  next
    case (Some j)
    then have "goStep fl env tasks j s \<noteq> None"
      by (auto simp: find_Some_iff)
    then obtain s' where st: "goStep fl env tasks j s = Some s'" by blast
    have w: "waitAll fl env tasks s = waitAll fl env tasks s'"
      using Some st by (simp add: waitAll.simps [of fl env tasks s])
    from "1.IH" [OF Some st] obtain more where
      m: "waitAll fl env tasks s' = fold (schedStep fl env tasks) more s'" ..
    have "waitAll fl env tasks s = fold (schedStep fl env tasks) (j # more) s"
      using st by (simp add: w m schedStep_def)
    then show ?thesis ..
  qed
qed

lemma final_state_is_scheduled:
  "\<exists>sched'. waitAll fl env tasks (runSchedule fl env tasks sched)
             = runSchedule fl env tasks sched'"
proof -
  from waitAll_is_schedule [of fl env tasks "runSchedule fl env tasks sched"]
  obtain more where "waitAll fl env tasks (runSchedule fl env tasks sched)
      = fold (schedStep fl env tasks) more (runSchedule fl env tasks sched)" ..
  then have "waitAll fl env tasks (runSchedule fl env tasks sched)
      = runSchedule fl env tasks (sched @ more)"
    by (simp add: runSchedule_def)
  then show ?thesis ..
qed

lemma task_parResult: "task (parResult env tasks i) = tasks ! i"
  by (simp add: parResult_def split: sum.splits)

lemma runTasksSequential_aligned:
  "length (fst (runTasksSequential fl env tasks)) = length tasks
   \<and> (\<forall>i < length tasks. task (fst (runTasksSequential fl env tasks) ! i) = tasks ! i)"
  by (auto simp: runTasksSequential_eq seqResult_def split: sum.splits)

text \<open>
  Claim C2. For every task list and every concurrency setting, \<open>runTasksSequential\<close> returns
  as many results as there are tasks, the result at index \<open>i\<close> being that of the task at
  index \<open>i\<close>: with a sandbox acquired, slot \<open>i\<close> holds task \<open>i\<close> with the execution and the error
  that \<open>RunCode\<close> returned for the code of task \<open>i\<close>, run after the codes of the tasks before it,
  and every task's code was run once, in order; with the acquisition failed, slot \<open>i\<close> holds
  task \<open>i\<close> with the wrapped acquisition error and nothing was run. Under every schedule of the
  goroutines \<open>runTasksParallel\<close> returns (\<open>wg.Wait()\<close> does not block forever), again with as
  many results as tasks and with the result of the task at index \<open>i\<close> in slot \<open>i\<close>, whatever
  the order in which tasks completed.
\<close>

theorem results_positionally_aligned:
  "length (fst (runTasksSequential fl env tasks)) = length tasks
   \<and> (\<forall>i < length tasks. task (fst (runTasksSequential fl env tasks) ! i) = tasks ! i)
   \<and> (\<forall>sb. (runInstance fl \<noteq> [] \<and> connectSandbox env (runInstance fl) = Inr sb)
             \<or> (runInstance fl = [] \<and> createSandbox env 0 = Inr sb) \<longrightarrow>
          snd (runTasksSequential fl env tasks) = map code tasks
          \<and> (\<forall>i < length tasks.
                fst (runTasksSequential fl env tasks) ! i =
                  seqResult env sb (if runInstance fl \<noteq> [] then 0 else createTime env 0) tasks i
                \<and> result (fst (runTasksSequential fl env tasks) ! i) =
                    fst (runCodeResult env sb (map code (take i tasks)) (code (tasks ! i)))
                \<and> err (fst (runTasksSequential fl env tasks) ! i) =
                    snd (runCodeResult env sb (map code (take i tasks)) (code (tasks ! i)))))
   \<and> (\<forall>e. (runInstance fl \<noteq> [] \<and> connectSandbox env (runInstance fl) = Inl e)
             \<or> (runInstance fl = [] \<and> createSandbox env 0 = Inl e) \<longrightarrow>
          snd (runTasksSequential fl env tasks) = []
          \<and> (\<forall>i < length tasks.
                fst (runTasksSequential fl env tasks) ! i =
                  \<lparr>task = tasks ! i, result = None,
                   err = Some (Wrap (if runInstance fl \<noteq> []
                                     then ''failed to connect to instance: ''
                                     else ''failed to create sandbox: '') e),
                   createDuration = 0, execDuration = 0, totalDuration = 0\<rparr>))
   \<and> (\<exists>rs ex. runTasksParallel fl env sched tasks = Some (rs, ex)
         \<and> length rs = length tasks
         \<and> (\<forall>i < length tasks. task (rs ! i) = tasks ! i \<and> rs ! i = parResult env tasks i))"
proof -
  from runTasksParallel_returns [of fl env sched tasks] obtain ex where
    "runTasksParallel fl env sched tasks
       = Some (map (parResult env tasks) [0..<length tasks], ex)" ..
  then have par: "\<exists>rs ex. runTasksParallel fl env sched tasks = Some (rs, ex)
         \<and> length rs = length tasks
         \<and> (\<forall>i < length tasks. task (rs ! i) = tasks ! i \<and> rs ! i = parResult env tasks i)"
    by (simp add: task_parResult)
  have ok: "snd (runTasksSequential fl env tasks) = map code tasks
          \<and> (\<forall>i < length tasks.
                fst (runTasksSequential fl env tasks) ! i =
                  seqResult env sb (if runInstance fl \<noteq> [] then 0 else createTime env 0) tasks i
                \<and> result (fst (runTasksSequential fl env tasks) ! i) =
                    fst (runCodeResult env sb (map code (take i tasks)) (code (tasks ! i)))
                \<and> err (fst (runTasksSequential fl env tasks) ! i) =
                    snd (runCodeResult env sb (map code (take i tasks)) (code (tasks ! i))))"
    if "(runInstance fl \<noteq> [] \<and> connectSandbox env (runInstance fl) = Inr sb)
             \<or> (runInstance fl = [] \<and> createSandbox env 0 = Inr sb)" for sb
    using that by (auto simp: runTasksSequential_eq seqResult_def)
  have bad: "snd (runTasksSequential fl env tasks) = []
          \<and> (\<forall>i < length tasks.
                fst (runTasksSequential fl env tasks) ! i =
                  \<lparr>task = tasks ! i, result = None,
                   err = Some (Wrap (if runInstance fl \<noteq> []
                                     then ''failed to connect to instance: ''
                                     else ''failed to create sandbox: '') e),
                   createDuration = 0, execDuration = 0, totalDuration = 0\<rparr>)"
    if "(runInstance fl \<noteq> [] \<and> connectSandbox env (runInstance fl) = Inl e)
             \<or> (runInstance fl = [] \<and> createSandbox env 0 = Inl e)" for e
    using that by (auto simp: runTasksSequential_eq)
  from runTasksSequential_aligned [of fl env tasks] ok bad par show ?thesis by blast
qed

text \<open>
  Claim C4. In parallel mode, after any schedule, the number of goroutines between the
  send on the semaphore and the deferred receive (creating a sandbox, running code, or
  about to give the token back) is at most \<open>min(L, n)\<close> when the configured limit \<open>L\<close> is
  positive and at most \<open>n\<close> otherwise, \<open>n\<close> being the task count. A pending goroutine passes
  the send only while fewer than that limit are inside, and is blocked when the limit
  is reached.
\<close>

theorem admission_gate_bound:
  "(0 < runMaxParallel fl \<longrightarrow>
      inGate (runSchedule fl env tasks sched) \<le> min (nat (runMaxParallel fl)) (length tasks))
   \<and> (runMaxParallel fl \<le> 0 \<longrightarrow> inGate (runSchedule fl env tasks sched) \<le> length tasks)
   \<and> (\<forall>i s'. pc (runSchedule fl env tasks sched) ! i = Pending
          \<and> goStep fl env tasks i (runSchedule fl env tasks sched) = Some s'
        \<longrightarrow> inGate (runSchedule fl env tasks sched)
              < specLimit (runMaxParallel fl) (length tasks)
            \<and> pc s' ! i = Acquiring \<and> inGate s' = inGate (runSchedule fl env tasks sched) + 1)
   \<and> (\<forall>i. i < length tasks \<and> pc (runSchedule fl env tasks sched) ! i = Pending
          \<and> inGate (runSchedule fl env tasks sched)
              = specLimit (runMaxParallel fl) (length tasks)
        \<longrightarrow> goStep fl env tasks i (runSchedule fl env tasks sched) = None)"
proof -
  let ?s = "runSchedule fl env tasks sched"
  have inv: "parInv fl env tasks ?s" by (rule runSchedule_inv)
  then have sem: "sem ?s = inGate ?s" and len: "length (pc ?s) = length tasks"
    and le: "inGate ?s \<le> specLimit (runMaxParallel fl) (length tasks)"
    by (simp_all add: parInv_def maxParallel_spec)
  have enter: "inGate ?s < specLimit (runMaxParallel fl) (length tasks)
            \<and> pc s' ! i = Acquiring \<and> inGate s' = inGate ?s + 1"
    if p: "pc ?s ! i = Pending" and st: "goStep fl env tasks i ?s = Some s'" for i s'
  proof -
    from st have i: "i < length (pc ?s)" by (rule goStep_index)
    from st p i have lt: "int (sem ?s) < maxParallel fl tasks"
      and s': "s' = ?s\<lparr>pc := (pc ?s)[i := Acquiring], sem := sem ?s + 1\<rparr>"
      by (auto simp: goStep_def split: if_splits)
    from goStep_inv [OF inv st] have "sem s' = inGate s'" by (simp add: parInv_def)
    with s' sem have "inGate s' = inGate ?s + 1" by simp
    with lt sem i show ?thesis by (simp add: s' maxParallel_spec)
  qed
  have block: "goStep fl env tasks i ?s = None"
    if "i < length tasks" and "pc ?s ! i = Pending"
      and "inGate ?s = specLimit (runMaxParallel fl) (length tasks)" for i
    using that sem len by (simp add: goStep_def maxParallel_spec)
  from le enter block show ?thesis
    by (auto simp: specLimit_def)
qed

text \<open>
  The claim for three tasks and limit 2: two goroutines enter, the third is blocked.
\<close>

theorem admission_gate_bound_witness:
  "0 < runMaxParallel (defaultFlags\<lparr>runParallel := True, runMaxParallel := 2\<rparr>)
   \<and> inGate (runSchedule (defaultFlags\<lparr>runParallel := True, runMaxParallel := 2\<rparr>)
               plainRunEnv threeTasks [0, 1, 2]) = 2
   \<and> pc (runSchedule (defaultFlags\<lparr>runParallel := True, runMaxParallel := 2\<rparr>)
               plainRunEnv threeTasks [0, 1, 2]) ! 2 = Pending
   \<and> goStep (defaultFlags\<lparr>runParallel := True, runMaxParallel := 2\<rparr>) plainRunEnv threeTasks 2
        (runSchedule (defaultFlags\<lparr>runParallel := True, runMaxParallel := 2\<rparr>)
               plainRunEnv threeTasks [0, 1, 2]) = None"
proof -
  let ?fl = "defaultFlags\<lparr>runParallel := True, runMaxParallel := 2\<rparr>"
  let ?s = "runSchedule ?fl plainRunEnv threeTasks [0, 1, 2]"
  have L: "0 < runMaxParallel ?fl" by (simp add: defaultFlags_def)
  have g: "inGate ?s = 2" by code_simp
  have p: "pc ?s ! 2 = Pending" by code_simp
  have l: "length threeTasks = 3" by (simp add: threeTasks_def)
  have lim: "specLimit (runMaxParallel ?fl) (length threeTasks) = 2"
    by (simp add: specLimit_def defaultFlags_def l)
  from admission_gate_bound [of ?fl plainRunEnv threeTasks "[0, 1, 2]"]
  have "\<forall>i. i < length threeTasks \<and> pc ?s ! i = Pending
          \<and> inGate ?s = specLimit (runMaxParallel ?fl) (length threeTasks)
        \<longrightarrow> goStep ?fl plainRunEnv threeTasks i ?s = None"
    by blast
  then have "2 < length threeTasks \<and> pc ?s ! 2 = Pending
          \<and> inGate ?s = specLimit (runMaxParallel ?fl) (length threeTasks)
        \<longrightarrow> goStep ?fl plainRunEnv threeTasks 2 ?s = None" ..
  with g p l lim have "goStep ?fl plainRunEnv threeTasks 2 ?s = None" by simp
  with L g p show ?thesis by blast
qed

text \<open>
  The claim for three tasks, limit 2, under a schedule that lets the last task finish
  first.
\<close>

theorem results_positionally_aligned_witness:
  "task (fst (runTasksSequential (defaultFlags\<lparr>runParallel := True, runMaxParallel := 2\<rparr>)
                plainRunEnv threeTasks) ! 2) = threeTasks ! 2
   \<and> result (fst (runTasksSequential (defaultFlags\<lparr>runParallel := True, runMaxParallel := 2\<rparr>)
                plainRunEnv threeTasks) ! 2) = Some okExecution
   \<and> err (fst (runTasksSequential (defaultFlags\<lparr>runParallel := True, runMaxParallel := 2\<rparr>)
                plainRunEnv threeTasks) ! 2) = None
   \<and> snd (runTasksSequential (defaultFlags\<lparr>runParallel := True, runMaxParallel := 2\<rparr>)
                plainRunEnv threeTasks) = [''print(1)'', ''print(1)'', ''print(1)'']
   \<and> (\<exists>rs ex. runTasksParallel (defaultFlags\<lparr>runParallel := True, runMaxParallel := 2\<rparr>)
                  plainRunEnv [2, 0, 2, 2, 1, 2] threeTasks = Some (rs, ex)
         \<and> length rs = 3
         \<and> task (rs ! 0) = threeTasks ! 0
         \<and> task (rs ! 1) = threeTasks ! 1
         \<and> task (rs ! 2) = threeTasks ! 2
         \<and> result (rs ! 2) = Some okExecution)"
proof -
  let ?fl = "defaultFlags\<lparr>runParallel := True, runMaxParallel := 2\<rparr>"
  let ?sb = "\<lparr>SandboxId = ''sbx''\<rparr>"
  have l: "length threeTasks = 3" by (simp add: threeTasks_def)
  note th = results_positionally_aligned [of ?fl plainRunEnv threeTasks "[2, 0, 2, 2, 1, 2]"]
  have acq: "(runInstance ?fl \<noteq> [] \<and> connectSandbox plainRunEnv (runInstance ?fl) = Inr ?sb)
      \<or> (runInstance ?fl = [] \<and> createSandbox plainRunEnv 0 = Inr ?sb)"
    by (simp add: defaultFlags_def plainRunEnv_def)
  from th have seq: "\<forall>i < length threeTasks.
        task (fst (runTasksSequential ?fl plainRunEnv threeTasks) ! i) = threeTasks ! i"
    by (rule conjunct2 [THEN conjunct1])
  from th have "\<forall>sb. (runInstance ?fl \<noteq> [] \<and> connectSandbox plainRunEnv (runInstance ?fl) = Inr sb)
             \<or> (runInstance ?fl = [] \<and> createSandbox plainRunEnv 0 = Inr sb) \<longrightarrow>
          snd (runTasksSequential ?fl plainRunEnv threeTasks) = map code threeTasks
          \<and> (\<forall>i < length threeTasks.
                fst (runTasksSequential ?fl plainRunEnv threeTasks) ! i =
                  seqResult plainRunEnv sb
                    (if runInstance ?fl \<noteq> [] then 0 else createTime plainRunEnv 0) threeTasks i
                \<and> result (fst (runTasksSequential ?fl plainRunEnv threeTasks) ! i) =
                    fst (runCodeResult plainRunEnv sb (map code (take i threeTasks))
                           (code (threeTasks ! i)))
                \<and> err (fst (runTasksSequential ?fl plainRunEnv threeTasks) ! i) =
                    snd (runCodeResult plainRunEnv sb (map code (take i threeTasks))
                           (code (threeTasks ! i))))"
    by (rule conjunct2 [THEN conjunct2, THEN conjunct1])
  with acq have log: "snd (runTasksSequential ?fl plainRunEnv threeTasks) = map code threeTasks"
    and pin: "\<forall>i < length threeTasks.
                result (fst (runTasksSequential ?fl plainRunEnv threeTasks) ! i) =
                    fst (runCodeResult plainRunEnv ?sb (map code (take i threeTasks))
                           (code (threeTasks ! i)))
                \<and> err (fst (runTasksSequential ?fl plainRunEnv threeTasks) ! i) =
                    snd (runCodeResult plainRunEnv ?sb (map code (take i threeTasks))
                           (code (threeTasks ! i)))"
    by blast+
  from th obtain rs ex where
    r: "runTasksParallel ?fl plainRunEnv [2, 0, 2, 2, 1, 2] threeTasks = Some (rs, ex)"
    and len: "length rs = length threeTasks"
    and al: "\<forall>i < length threeTasks. task (rs ! i) = threeTasks ! i
                \<and> rs ! i = parResult plainRunEnv threeTasks i"
    by blast
  have s2: "task (fst (runTasksSequential ?fl plainRunEnv threeTasks) ! 2) = threeTasks ! 2"
    using seq l by simp
  have s3: "result (fst (runTasksSequential ?fl plainRunEnv threeTasks) ! 2) = Some okExecution"
    "err (fst (runTasksSequential ?fl plainRunEnv threeTasks) ! 2) = None"
    using pin l by (simp_all add: plainRunEnv_def)
  have s4: "snd (runTasksSequential ?fl plainRunEnv threeTasks)
      = [''print(1)'', ''print(1)'', ''print(1)'']"
    using log by (simp add: threeTasks_def)
  have p: "task (rs ! 0) = threeTasks ! 0" "task (rs ! 1) = threeTasks ! 1"
    "task (rs ! 2) = threeTasks ! 2"
    using al l by (simp_all add: task_parResult)
  have "rs ! 2 = parResult plainRunEnv threeTasks 2" using al l by simp
  then have p2: "result (rs ! 2) = Some okExecution"
    by (simp add: parResult_def plainRunEnv_def)
  from s2 s3 s4 r len l p p2 show ?thesis by auto
qed

section \<open>Properties of the single-task path\<close>






end
